theory Spec2Isabelle
  imports Complex_Main "HOL-Library.Word" "HOL-Library.Multiset"
begin

section \<open>Data model (deck/deck.go)\<close>

text \<open>
  A Go \<open>int\<close> is a 64-bit two's-complement word on the platforms the program targets.
  The hardness rating is typed in by the user and parsed by \<open>strconv.Atoi\<close>, so it can be
  any 64-bit value and \<open>hardness*hardness\<close> wraps: hardness values are \<open>64 word\<close>.
  \<open>Id\<close> and \<open>Reps\<close> only ever grow by one per operation, starting from 0, and would need
  \<open>2^63\<close> operations to wrap; they are modelled as unbounded \<open>int\<close>.

  A \<open>float64\<close> is modelled as a \<open>real\<close>: rounding, infinities and NaN are outside the
  model. A \<open>time.Time\<close> is the number of nanoseconds since the Unix epoch, and
  \<open>time.Now()\<close> is an explicit argument \<open>now\<close>.
\<close>

type_synonym go_int = "64 word"
type_synonym go_time = int

record Card =
  Id :: int
  Prompt :: string
  Answer :: string
  Reps :: int
  NextRep :: go_time
  EFs :: "real list"
  Hardnesses :: "go_int list"

definition defaultEF :: real where
  "defaultEF = 1.75"

definition Hour :: int where
  "Hour = 3600 * 1000000000"

text \<open>\<open>NewCard\<close> (deck.go, lines 228-238).\<close>

definition NewCard :: "string \<Rightarrow> string \<Rightarrow> go_time \<Rightarrow> Card" where
  "NewCard prompt answer now =
     \<lparr>Id = 0, Prompt = prompt, Answer = answer, Reps = 0, NextRep = now,
      EFs = [], Hardnesses = []\<rparr>"

section \<open>Scheduler\<close>

text \<open>
  Indexing a Go slice with an \<open>int\<close> panics out of range; \<open>None\<close> is the panic.
\<close>

definition index :: "'a list \<Rightarrow> int \<Rightarrow> 'a option" where
  "index xs i = (if 0 \<le> i \<and> i < int (length xs) then Some (xs ! nat i) else None)"

text \<open>\<open>calcEf\<close> (deck.go, lines 272-280). \<open>hardness*hardness\<close> is a wrapping 64-bit product.\<close>

definition calcEf :: "real \<Rightarrow> go_int \<Rightarrow> real" where
  "calcEf efprime hardness =
     (let ef = efprime - 0.8 + 0.28 * real_of_int (sint hardness)
                 - 0.02 * real_of_int (sint (hardness * hardness))
      in if ef < 1.3 then 1.3 else ef)"

text \<open>
  \<open>interval\<close> (deck.go, lines 262-270). For \<open>n \<le> 0\<close> the Go recursion never reaches a base
  case and the runtime aborts; with \<open>n - 1\<close> beyond the end of \<open>EFs\<close> the index panics. Both
  are \<open>None\<close>.
\<close>

function interval :: "Card \<Rightarrow> int \<Rightarrow> real option" where
  "interval c n =
     (if n = 1 then Some 1.0
      else if n = 2 then Some 6.0
      else if n \<le> 0 then None
      else (case interval c (n - 1) of
              None \<Rightarrow> None
            | Some i \<Rightarrow> (case index (EFs c) (n - 1) of
                           None \<Rightarrow> None
                         | Some ef \<Rightarrow> Some (i * ef))))"
  by pat_completeness auto
termination
  by (relation "measure (\<lambda>(c, n). nat n)") auto

declare interval.simps [simp del]

text \<open>
  The conversion \<open>(time.Duration)(x)\<close> of a \<open>float64\<close> to \<open>int64\<close> drops the fraction. A
  value outside the \<open>int64\<close> range converts to the smallest \<open>int64\<close>, as on amd64.
\<close>

definition to_Duration :: "real \<Rightarrow> int" where
  "to_Duration x =
     (let t = (if 0 \<le> x then \<lfloor>x\<rfloor> else \<lceil>x\<rceil>)
      in if - (2 ^ 63) \<le> t \<and> t < 2 ^ 63 then t else - (2 ^ 63))"

text \<open>\<open>CalcNextRep\<close> as in deck/deck.go, lines 240-260.\<close>

definition CalcNextRep :: "go_time \<Rightarrow> go_int \<Rightarrow> Card \<Rightarrow> Card option" where
  "CalcNextRep now hardness c0 =
     (let c1 = c0\<lparr>Reps := Reps c0 + 1\<rparr>;
          c2 = c1\<lparr>Hardnesses := Hardnesses c1 @ [hardness]\<rparr>
      in if Reps c2 = 1 then
           Some (c2\<lparr>NextRep := now + Hour * 24, EFs := EFs c2 @ [defaultEF]\<rparr>)
         else if Reps c2 = 2 then
           Some (c2\<lparr>NextRep := now + Hour * 24 * 4, EFs := EFs c2 @ [defaultEF]\<rparr>)
         else
           (case index (EFs c2) (Reps c2 - 2) of
              None \<Rightarrow> None
            | Some efprime \<Rightarrow>
                (case index (Hardnesses c2) (Reps c2 - 1) of
                   None \<Rightarrow> None
                 | Some h \<Rightarrow>
                     (let c3 = c2\<lparr>EFs := EFs c2 @ [calcEf efprime h]\<rparr>
                      in case interval c3 (Reps c3) of
                           None \<Rightarrow> None
                         | Some days \<Rightarrow>
                             Some (c3\<lparr>NextRep :=
                                      now + to_Duration (real_of_int Hour * 24 * days)\<rparr>)))))"

text \<open>
  \<open>CalcNextRep\<close> as in the other revision of the package (unnamed/part_000, lines 105-129, and
  the single-file program in unnamed/part_001): a hardness of 5 on the third or a later review
  makes the card due at once.
\<close>

definition CalcNextRep_v2 :: "go_time \<Rightarrow> go_int \<Rightarrow> Card \<Rightarrow> Card option" where
  "CalcNextRep_v2 now hardness c0 =
     (let c1 = c0\<lparr>Reps := Reps c0 + 1\<rparr>;
          c2 = c1\<lparr>Hardnesses := Hardnesses c1 @ [hardness]\<rparr>
      in if Reps c2 = 1 then
           Some (c2\<lparr>NextRep := now + Hour * 24, EFs := EFs c2 @ [defaultEF]\<rparr>)
         else if Reps c2 = 2 then
           Some (c2\<lparr>NextRep := now + Hour * 24 * 4, EFs := EFs c2 @ [defaultEF]\<rparr>)
         else
           (case index (EFs c2) (Reps c2 - 2) of
              None \<Rightarrow> None
            | Some efprime \<Rightarrow>
                (case index (Hardnesses c2) (Reps c2 - 1) of
                   None \<Rightarrow> None
                 | Some h \<Rightarrow>
                     (let c3 = c2\<lparr>EFs := EFs c2 @ [calcEf efprime h]\<rparr>
                      in if hardness = 5 then Some (c3\<lparr>NextRep := now\<rparr>)
                         else
                           (case interval c3 (Reps c3) of
                              None \<Rightarrow> None
                            | Some days \<Rightarrow>
                                Some (c3\<lparr>NextRep :=
                                         now + to_Duration (real_of_int Hour * 24 * days)\<rparr>))))))"

text \<open>
  A sequence of reviews of one card, as \<open>study\<close> (vergessen.go, lines 124-166) performs them
  over time: each review has its own instant and hardness. A panic ends the sequence.
\<close>

fun reviews :: "(go_time \<times> go_int) list \<Rightarrow> Card \<Rightarrow> Card option" where
  "reviews [] c = Some c"
| "reviews ((now, hardness) # rs) c =
     (case CalcNextRep now hardness c of None \<Rightarrow> None | Some c' \<Rightarrow> reviews rs c')"

fun reviews_v2 :: "(go_time \<times> go_int) list \<Rightarrow> Card \<Rightarrow> Card option" where
  "reviews_v2 [] c = Some c"
| "reviews_v2 ((now, hardness) # rs) c =
     (case CalcNextRep_v2 now hardness c of None \<Rightarrow> None | Some c' \<Rightarrow> reviews_v2 rs c')"

text \<open>The history invariant of the data model.\<close>

definition card_inv :: "Card \<Rightarrow> bool" where
  "card_inv c \<longleftrightarrow>
     0 \<le> Reps c \<and> int (length (EFs c)) = Reps c \<and> int (length (Hardnesses c)) = Reps c"

section \<open>Deck operations (deck/deck.go)\<close>

text \<open>
  The \<open>DB\<close> field is a handle on the storage file it was opened for: the path, or \<open>None\<close>
  for a nil handle. \<open>Cards\<close> is the slice of cards in its in-memory order.
\<close>

record Deck =
  Path :: string
  DB :: "string option"
  Cards :: "Card list"
  Dirty :: bool

text \<open>\<open>AddCard\<close> (deck.go, lines 129-138).\<close>

definition AddCard :: "Deck \<Rightarrow> Card \<Rightarrow> Deck" where
  "AddCard d c =
     (let c' = (if length (Cards d) > 0
                then c\<lparr>Id := Id (Cards d ! (length (Cards d) - 1)) + 1\<rparr>
                else c\<lparr>Id := 0\<rparr>)
      in d\<lparr>Cards := Cards d @ [c'], Dirty := True\<rparr>)"

text \<open>
  \<open>DeleteCard\<close> (deck.go, lines 140-148): the loop looks for the first index whose card has
  the id, splices that index out and returns.
\<close>

fun find_card :: "int \<Rightarrow> Card list \<Rightarrow> nat option" where
  "find_card cid [] = None"
| "find_card cid (c # cs) =
     (if Id c = cid then Some 0 else map_option Suc (find_card cid cs))"

definition DeleteCard :: "Deck \<Rightarrow> int \<Rightarrow> Deck" where
  "DeleteCard d cid =
     (case find_card cid (Cards d) of
        None \<Rightarrow> d
      | Some i \<Rightarrow> d\<lparr>Cards := take i (Cards d) @ drop (i + 1) (Cards d), Dirty := True\<rparr>)"

section \<open>Durable storage\<close>

text \<open>
  The storage file is an SQLite database with the three tables of \<open>createDeckStmt\<close>
  (deck.go, lines 31-35). A table is the list of its rows in insertion order; \<open>schema\<close> tells
  whether the tables exist. The file system maps a path to the database stored there.

  Storage calls can fail. \<open>faults\<close> is the schedule of injected failures: every storage call
  takes the next flag, and fails without effect when the flag is set. An empty schedule
  injects nothing. A statement is atomic: it fails with no effect or takes effect in full.
  Rows hold values of the declared column types, so \<open>Scan\<close> does not fail, and iterating
  over a result that the query has returned does not fail either.
\<close>

datatype error =
    NoSuchTable
  | TableExists
  | ErrNoRows
  | IOFailure
  | NotExist
  | NoEasinessFactors
  | NoHardnessFactors
  | Panic

type_synonym card_row = "int \<times> string \<times> string \<times> int \<times> int"
type_synonym ef_row = "int \<times> int \<times> real"
type_synonym hardness_row = "int \<times> int \<times> go_int"

record db =
  schema :: bool
  cards_t :: "card_row list"
  efs_t :: "ef_row list"
  hardnesses_t :: "hardness_row list"

record world =
  files :: "string \<Rightarrow> db option"
  faults :: "bool list"

definition empty_db :: db where
  "empty_db = \<lparr>schema = False, cards_t = [], efs_t = [], hardnesses_t = []\<rparr>"

definition fault :: "world \<Rightarrow> bool \<times> world" where
  "fault w = (case faults w of [] \<Rightarrow> (False, w) | f # fs \<Rightarrow> (f, w\<lparr>faults := fs\<rparr>))"

text \<open>
  One statement on the database at path \<open>p\<close>. SQLite creates a missing file when the
  statement runs; the statement \<open>f\<close> then fails or returns a result and the new database.
\<close>

definition db_op ::
    "string \<Rightarrow> (db \<Rightarrow> error + 'a \<times> db) \<Rightarrow> world \<Rightarrow> (error + 'a) \<times> world" where
  "db_op p f w =
     (case fault w of
        (True, w1) \<Rightarrow> (Inl IOFailure, w1)
      | (False, w1) \<Rightarrow>
          (let d = (case files w1 p of None \<Rightarrow> empty_db | Some d \<Rightarrow> d)
           in case f d of
                Inl e \<Rightarrow> (Inl e, w1\<lparr>files := (files w1)(p \<mapsto> d)\<rparr>)
              | Inr (x, d') \<Rightarrow> (Inr x, w1\<lparr>files := (files w1)(p \<mapsto> d')\<rparr>)))"

text \<open>
  SQLite gives a row inserted without an id the largest id in the table plus one, or 1 in an
  empty table.
\<close>

definition next_rowid :: "int list \<Rightarrow> int" where
  "next_rowid ids = (if ids = [] then 1 else Max (set ids) + 1)"

definition ins_card :: "string \<times> string \<times> int \<times> int \<Rightarrow> db \<Rightarrow> int \<times> db" where
  "ins_card r d =
     (let i = next_rowid (map fst (cards_t d))
      in (i, d\<lparr>cards_t := cards_t d @ [(i, r)]\<rparr>))"

definition ins_ef :: "int \<Rightarrow> real \<Rightarrow> db \<Rightarrow> db" where
  "ins_ef card_id ef d =
     d\<lparr>efs_t := efs_t d @ [(next_rowid (map fst (efs_t d)), card_id, ef)]\<rparr>"

definition ins_hardness :: "int \<Rightarrow> go_int \<Rightarrow> db \<Rightarrow> db" where
  "ins_hardness card_id hardness d =
     d\<lparr>hardnesses_t :=
         hardnesses_t d @ [(next_rowid (map fst (hardnesses_t d)), card_id, hardness)]\<rparr>"

text \<open>\<open>select * from cards order by nextrep\<close>\<close>

definition sel_cards :: "db \<Rightarrow> card_row list" where
  "sel_cards d = sort_key (\<lambda>(rid, prompt, answer, reps, nextrep). nextrep) (cards_t d)"

text \<open>\<open>select ef from efs where card_id = $1 order by id\<close>\<close>

definition sel_efs :: "int \<Rightarrow> db \<Rightarrow> real list" where
  "sel_efs card_id d =
     map (\<lambda>(rid, cid, ef). ef)
       (sort_key (\<lambda>(rid, cid, ef). rid) (filter (\<lambda>(rid, cid, ef). cid = card_id) (efs_t d)))"

text \<open>\<open>select hardness from hardnesses where card_id = $1 order by id\<close>\<close>

definition sel_hardnesses :: "int \<Rightarrow> db \<Rightarrow> go_int list" where
  "sel_hardnesses card_id d =
     map (\<lambda>(rid, cid, h). h)
       (sort_key (\<lambda>(rid, cid, h). rid) (filter (\<lambda>(rid, cid, h). cid = card_id) (hardnesses_t d)))"

text \<open>
  The calls of \<open>database/sql\<close> and \<open>os\<close> that the package makes. \<open>sql.Open\<close> only makes a
  handle and touches no file; like every storage call it fails when the schedule says so.
  \<open>db.Query\<close> returns the rows, an empty sequence when no row matches: it fails on a
  missing table or an I/O failure and never with \<open>sql.ErrNoRows\<close>, which only
  \<open>QueryRow(...).Scan\<close> reports. Creating the tables fails when they exist already.
\<close>

definition sql_Open :: "string \<Rightarrow> world \<Rightarrow> (error + string) \<times> world" where
  "sql_Open p w = (case fault w of (True, w1) \<Rightarrow> (Inl IOFailure, w1) | (False, w1) \<Rightarrow> (Inr p, w1))"

definition db_Exec_create :: "string \<Rightarrow> world \<Rightarrow> (error + unit) \<times> world" where
  "db_Exec_create p =
     db_op p (\<lambda>d. if schema d then Inl TableExists
                  else Inr ((), \<lparr>schema = True, cards_t = [], efs_t = [], hardnesses_t = []\<rparr>))"

definition db_Exec_insert_card ::
    "string \<Rightarrow> string \<times> string \<times> int \<times> int \<Rightarrow> world \<Rightarrow> (error + int) \<times> world" where
  "db_Exec_insert_card p r =
     db_op p (\<lambda>d. if schema d then Inr (ins_card r d) else Inl NoSuchTable)"

definition db_Exec_insert_ef :: "string \<Rightarrow> int \<Rightarrow> real \<Rightarrow> world \<Rightarrow> (error + unit) \<times> world" where
  "db_Exec_insert_ef p card_id ef =
     db_op p (\<lambda>d. if schema d then Inr ((), ins_ef card_id ef d) else Inl NoSuchTable)"

definition db_Exec_insert_hardness ::
    "string \<Rightarrow> int \<Rightarrow> go_int \<Rightarrow> world \<Rightarrow> (error + unit) \<times> world" where
  "db_Exec_insert_hardness p card_id hardness =
     db_op p (\<lambda>d. if schema d then Inr ((), ins_hardness card_id hardness d) else Inl NoSuchTable)"

definition db_Query_cards :: "string \<Rightarrow> world \<Rightarrow> (error + card_row list) \<times> world" where
  "db_Query_cards p =
     db_op p (\<lambda>d. if schema d then Inr (sel_cards d, d) else Inl NoSuchTable)"

definition db_Query_efs :: "string \<Rightarrow> int \<Rightarrow> world \<Rightarrow> (error + real list) \<times> world" where
  "db_Query_efs p card_id =
     db_op p (\<lambda>d. if schema d then Inr (sel_efs card_id d, d) else Inl NoSuchTable)"

definition db_Query_hardnesses :: "string \<Rightarrow> int \<Rightarrow> world \<Rightarrow> (error + go_int list) \<times> world" where
  "db_Query_hardnesses p card_id =
     db_op p (\<lambda>d. if schema d then Inr (sel_hardnesses card_id d, d) else Inl NoSuchTable)"

definition os_Remove :: "string \<Rightarrow> world \<Rightarrow> (error + unit) \<times> world" where
  "os_Remove p w =
     (case fault w of
        (True, w1) \<Rightarrow> (Inl IOFailure, w1)
      | (False, w1) \<Rightarrow>
          (case files w1 p of
             None \<Rightarrow> (Inl NotExist, w1)
           | Some d \<Rightarrow> (Inr (), w1\<lparr>files := (files w1)(p := None)\<rparr>)))"

definition os_Rename :: "string \<Rightarrow> string \<Rightarrow> world \<Rightarrow> (error + unit) \<times> world" where
  "os_Rename old new w =
     (case fault w of
        (True, w1) \<Rightarrow> (Inl IOFailure, w1)
      | (False, w1) \<Rightarrow>
          (case files w1 old of
             None \<Rightarrow> (Inl NotExist, w1)
           | Some d \<Rightarrow> (Inr (), w1\<lparr>files := (files w1)(old := None, new \<mapsto> d)\<rparr>)))"

text \<open>\<open>t.Unix()\<close> and \<open>time.Unix(sec, 0)\<close>.\<close>

definition Unix :: "go_time \<Rightarrow> int" where
  "Unix t = t div 1000000000"

definition time_Unix :: "int \<Rightarrow> go_time" where
  "time_Unix sec = sec * 1000000000"

subsection \<open>\<open>Sync\<close> (deck.go, lines 152-215)\<close>

text \<open>The two inner loops (lines 181-193) and the loop over the cards (lines 169-194).\<close>

fun Sync_efs :: "string \<Rightarrow> int \<Rightarrow> real list \<Rightarrow> world \<Rightarrow> (error + unit) \<times> world" where
  "Sync_efs db cid [] w = (Inr (), w)"
| "Sync_efs db cid (ef # efs) w =
     (case db_Exec_insert_ef db cid ef w of
        (Inl err, w1) \<Rightarrow> (Inl err, w1)
      | (Inr _, w1) \<Rightarrow> Sync_efs db cid efs w1)"

fun Sync_hardnesses ::
    "string \<Rightarrow> int \<Rightarrow> go_int list \<Rightarrow> world \<Rightarrow> (error + unit) \<times> world" where
  "Sync_hardnesses db cid [] w = (Inr (), w)"
| "Sync_hardnesses db cid (hardness # hs) w =
     (case db_Exec_insert_hardness db cid hardness w of
        (Inl err, w1) \<Rightarrow> (Inl err, w1)
      | (Inr _, w1) \<Rightarrow> Sync_hardnesses db cid hs w1)"

fun Sync_cards :: "string \<Rightarrow> Card list \<Rightarrow> world \<Rightarrow> (error + unit) \<times> world" where
  "Sync_cards db [] w = (Inr (), w)"
| "Sync_cards db (c # cs) w =
     (let nextrep = Unix (NextRep c)
      in case db_Exec_insert_card db (Prompt c, Answer c, Reps c, nextrep) w of
           (Inl err, w1) \<Rightarrow> (Inl err, w1)
         | (Inr cid, w1) \<Rightarrow>
             (case Sync_efs db cid (EFs c) w1 of
                (Inl err, w2) \<Rightarrow> (Inl err, w2)
              | (Inr _, w2) \<Rightarrow>
                  (case Sync_hardnesses db cid (Hardnesses c) w2 of
                     (Inl err, w3) \<Rightarrow> (Inl err, w3)
                   | (Inr _, w3) \<Rightarrow> Sync_cards db cs w3)))"

text \<open>
  The write phase of \<open>Sync\<close> (lines 154-194): open the temporary store, create its schema,
  insert every card with its histories.
\<close>

definition Sync_write :: "Deck \<Rightarrow> world \<Rightarrow> (error + unit) \<times> world" where
  "Sync_write d w =
     (let new_path = Path d @ ''.sync''
      in case sql_Open new_path w of
           (Inl err, w1) \<Rightarrow> (Inl err, w1)
         | (Inr db, w1) \<Rightarrow>
             (case db_Exec_create db w1 of
                (Inl err, w2) \<Rightarrow> (Inl err, w2)
              | (Inr _, w2) \<Rightarrow> Sync_cards db (Cards d) w2))"

text \<open>
  \<open>Sync\<close> returns its error, \<open>None\<close> for nil, and the deck as it leaves it. The last
  \<open>sql.Open\<close> assigns its result to \<open>d.DB\<close> before the error is looked at.
\<close>

definition Sync :: "Deck \<Rightarrow> world \<Rightarrow> (error option \<times> Deck) \<times> world" where
  "Sync d w =
     (case Sync_write d w of
        (Inl err, w1) \<Rightarrow> ((Some err, d), w1)
      | (Inr _, w1) \<Rightarrow>
          (case os_Remove (Path d) w1 of
             (Inl err, w2) \<Rightarrow> ((Some err, d), w2)
           | (Inr _, w2) \<Rightarrow>
               (case os_Rename (Path d @ ''.sync'') (Path d) w2 of
                  (Inl err, w3) \<Rightarrow> ((Some err, d), w3)
                | (Inr _, w3) \<Rightarrow>
                    (case sql_Open (Path d) w3 of
                       (Inl err, w4) \<Rightarrow> ((Some err, d\<lparr>DB := None\<rparr>), w4)
                     | (Inr db, w4) \<Rightarrow> ((None, d\<lparr>DB := Some db, Dirty := False\<rparr>), w4)))))"

subsection \<open>\<open>OpenDeck\<close> (deck.go, lines 37-127)\<close>

text \<open>
  The loop over the c rows (lines 72-123). When a history query fails, its \<open>*sql.Rows\<close> is
  nil: unless the \<open>ErrNoRows\<close> test returns first, the deferred \<open>Close\<close> or the call of
  \<open>Next\<close> dereferences the nil pointer and the function panics. \<open>NewCard\<close> reads the
  clock, and the loop overwrites that time at once with the stored one, so a single instant
  \<open>now\<close> stands for every reading.
\<close>

fun load_cards ::
    "string \<Rightarrow> go_time \<Rightarrow> card_row list \<Rightarrow> Deck \<Rightarrow> world \<Rightarrow> (error + Deck) \<times> world" where
  "load_cards db now [] deck w = (Inr deck, w)"
| "load_cards db now ((cid, prompt, answer, reps, nextrep) # rows) deck w =
     (let c = (NewCard prompt answer now)\<lparr>Id := cid, Reps := reps, NextRep := time_Unix nextrep\<rparr>
      in case db_Query_efs db cid w of
           (Inl err, w1) \<Rightarrow>
             (if err = ErrNoRows \<and> Reps c > 0 then (Inl NoEasinessFactors, w1)
              else (Inl Panic, w1))
         | (Inr efRows, w1) \<Rightarrow>
             (let c1 = c\<lparr>EFs := EFs c @ efRows\<rparr>
              in case db_Query_hardnesses db cid w1 of
                   (Inl err, w2) \<Rightarrow>
                     (if err = ErrNoRows \<and> Reps c1 > 0 then (Inl NoHardnessFactors, w2)
                      else (Inl Panic, w2))
                 | (Inr hardnessRows, w2) \<Rightarrow>
                     (let c2 = c1\<lparr>Hardnesses := Hardnesses c1 @ hardnessRows\<rparr>
                      in load_cards db now rows (AddCard deck c2) w2)))"

definition OpenDeck :: "string \<Rightarrow> go_time \<Rightarrow> world \<Rightarrow> (error + Deck) \<times> world" where
  "OpenDeck path now w =
     (case sql_Open path w of
        (Inl err, w1) \<Rightarrow> (Inl err, w1)
      | (Inr db, w1) \<Rightarrow>
          (let deck = \<lparr>Path = path, DB = Some db, Cards = [], Dirty = False\<rparr>
           in case db_Query_cards db w1 of
                (Inl err, w2) \<Rightarrow>
                  (if err = NoSuchTable then
                     (case db_Exec_create db w2 of
                        (Inl err', w3) \<Rightarrow> (Inl err', w3)
                      | (Inr _, w3) \<Rightarrow> (Inr deck, w3))
                   else if err = ErrNoRows then (Inr deck, w2)
                   else (Inl err, w2))
              | (Inr cardRows, w2) \<Rightarrow>
                  (case load_cards db now cardRows deck w2 of
                     (Inl err, w3) \<Rightarrow> (Inl err, w3)
                   | (Inr deck', w3) \<Rightarrow> (Inr (deck'\<lparr>Dirty := False\<rparr>), w3))))"

section \<open>Notions used in the statements\<close>

text \<open>The ids of a deck ascend along its in-memory order.\<close>

definition ids_ascending :: "Deck \<Rightarrow> bool" where
  "ids_ascending d \<longleftrightarrow> sorted_wrt (<) (map Id (Cards d))"

text \<open>
  The decks that the program can hold. A deck comes from \<open>OpenDeck\<close>; the commands of
  vergessen.go then add a card (\<open>newCard\<close>), delete one (\<open>delCard\<close>), review a card and
  mark the deck dirty (\<open>study\<close>), edit the prompt and the answer of a card (\<open>editCard\<close>),
  and \<open>Sync\<close> the deck.
\<close>

inductive reachable :: "Deck \<Rightarrow> bool" where
  opened: "OpenDeck path now w = (Inr d, w') \<Longrightarrow> reachable d"
| added: "reachable d \<Longrightarrow> reachable (AddCard d c)"
| deleted: "reachable d \<Longrightarrow> reachable (DeleteCard d cid)"
| reviewed:
    "reachable d \<Longrightarrow> i < length (Cards d) \<Longrightarrow>
     CalcNextRep now hardness (Cards d ! i) = Some c \<Longrightarrow>
     reachable (d\<lparr>Cards := (Cards d)[i := c], Dirty := True\<rparr>)"
| reviewed_v2:
    "reachable d \<Longrightarrow> i < length (Cards d) \<Longrightarrow>
     CalcNextRep_v2 now hardness (Cards d ! i) = Some c \<Longrightarrow>
     reachable (d\<lparr>Cards := (Cards d)[i := c], Dirty := True\<rparr>)"
| edited:
    "reachable d \<Longrightarrow> i < length (Cards d) \<Longrightarrow>
     reachable (d\<lparr>Cards := (Cards d)[i := (Cards d ! i)\<lparr>Prompt := prompt, Answer := answer\<rparr>]\<rparr>)"
| synced: "reachable d \<Longrightarrow> Sync d w = ((err, d'), w') \<Longrightarrow> reachable d'"

text \<open>
  What storage keeps of a card: every field but the id, with the due time cut to the second.
\<close>

definition saved :: "Card \<Rightarrow> Card" where
  "saved c = c\<lparr>Id := 0, NextRep := time_Unix (Unix (NextRep c))\<rparr>"

text \<open>The card that the loop of \<open>OpenDeck\<close> builds from a row of the database \<open>d\<close>.\<close>

definition row_card :: "db \<Rightarrow> card_row \<Rightarrow> Card" where
  "row_card d r =
     (case r of (cid, prompt, answer, reps, nextrep) \<Rightarrow>
        \<lparr>Id = cid, Prompt = prompt, Answer = answer, Reps = reps, NextRep = time_Unix nextrep,
         EFs = sel_efs cid d, Hardnesses = sel_hardnesses cid d\<rparr>)"

text \<open>The database that the loop of \<open>Sync\<close> leaves when no statement fails.\<close>

fun store_cards :: "Card list \<Rightarrow> db \<Rightarrow> db" where
  "store_cards [] d = d"
| "store_cards (c # cs) d =
     (case ins_card (Prompt c, Answer c, Reps c, Unix (NextRep c)) d of
        (cid, d1) \<Rightarrow>
          store_cards cs
            (foldl (\<lambda>d h. ins_hardness cid h d)
               (foldl (\<lambda>d ef. ins_ef cid ef d) d1 (EFs c)) (Hardnesses c)))"

text \<open>
  A database as \<open>Sync\<close> builds it: history rows in ascending id order, each belonging to a card
  row.
\<close>

definition db_wf :: "db \<Rightarrow> bool" where
  "db_wf d \<longleftrightarrow>
     sorted (map fst (efs_t d)) \<and> sorted (map fst (hardnesses_t d)) \<and>
     list_all (\<lambda>r. fst (snd r) \<in> fst ` set (cards_t d)) (efs_t d) \<and>
     list_all (\<lambda>r. fst (snd r) \<in> fst ` set (cards_t d)) (hardnesses_t d)"

section \<open>Properties of the scheduler\<close>

lemma interval_total:
  "3 \<le> n \<Longrightarrow> n \<le> int (length (EFs c)) \<Longrightarrow> \<exists>d. interval c n = Some d"
proof (induction n rule: int_ge_induct)
  case base
  then show ?case by (simp add: interval.simps [of c 3] interval.simps [of c 2] index_def)
next
  case (step i)
  then obtain d where "interval c i = Some d" by auto
  with step show ?case
    by (simp add: interval.simps [of c "i + 1"] index_def)
qed

lemma calcEf_lower: "1.3 \<le> calcEf e h"
  by (simp add: calcEf_def Let_def)

lemma defaultEF_lower: "1.3 \<le> defaultEF"
  by (simp add: defaultEF_def)

lemma CalcNextRep_inv:
  assumes "card_inv c"
  shows "\<exists>c' e. CalcNextRep now h c = Some c' \<and> card_inv c' \<and> Reps c' = Reps c + 1
     \<and> Hardnesses c' = Hardnesses c @ [h] \<and> EFs c' = EFs c @ [e] \<and> 1.3 \<le> e"
proof -
  consider "Reps c = 0" | "Reps c = 1" | "2 \<le> Reps c" using assms unfolding card_inv_def by linarith
  then show ?thesis
  proof cases
    case 1
    then have "CalcNextRep now h c = Some (c\<lparr>Reps := 1, Hardnesses := Hardnesses c @ [h],
        NextRep := now + Hour * 24, EFs := EFs c @ [defaultEF]\<rparr>)"
      by (simp add: CalcNextRep_def Let_def)
    then show ?thesis using 1 assms defaultEF_lower by (simp add: card_inv_def)
  next
    case 2
    then have "CalcNextRep now h c = Some (c\<lparr>Reps := 2, Hardnesses := Hardnesses c @ [h],
        NextRep := now + Hour * 24 * 4, EFs := EFs c @ [defaultEF]\<rparr>)"
      by (simp add: CalcNextRep_def Let_def)
    then show ?thesis using 2 assms defaultEF_lower by (simp add: card_inv_def)
  next
    case 3
    let ?e = "calcEf (EFs c ! nat (Reps c - 1)) h"
    let ?c3 = "c\<lparr>Reps := Reps c + 1, Hardnesses := Hardnesses c @ [h], EFs := EFs c @ [?e]\<rparr>"
    have "\<exists>d. interval ?c3 (Reps c + 1) = Some d"
      using 3 assms by (intro interval_total) (auto simp: card_inv_def)
    then obtain d where d: "interval ?c3 (Reps c + 1) = Some d" ..
    have i1: "index (EFs c) (Reps c - 1) = Some (EFs c ! nat (Reps c - 1))"
      using 3 assms by (simp add: index_def card_inv_def)
    have i2: "index (Hardnesses c @ [h]) (Reps c) = Some h"
      using 3 assms by (auto simp add: index_def card_inv_def nth_append)
    have "CalcNextRep now h c =
        Some (?c3\<lparr>NextRep := now + to_Duration (real_of_int Hour * 24 * d)\<rparr>)"
      using 3 d i1 i2 by (simp add: CalcNextRep_def Let_def)
    then show ?thesis using 3 assms calcEf_lower [of "EFs c ! nat (Reps c - 1)" h]
      by (simp add: card_inv_def)
  qed
qed

lemma CalcNextRep_v2_inv:
  assumes "card_inv c"
  shows "\<exists>c' e. CalcNextRep_v2 now h c = Some c' \<and> card_inv c' \<and> Reps c' = Reps c + 1
     \<and> Hardnesses c' = Hardnesses c @ [h] \<and> EFs c' = EFs c @ [e] \<and> 1.3 \<le> e"
proof -
  consider "Reps c = 0" | "Reps c = 1" | "2 \<le> Reps c" using assms unfolding card_inv_def by linarith
  then show ?thesis
  proof cases
    case 1
    then have "CalcNextRep_v2 now h c = Some (c\<lparr>Reps := 1, Hardnesses := Hardnesses c @ [h],
        NextRep := now + Hour * 24, EFs := EFs c @ [defaultEF]\<rparr>)"
      by (simp add: CalcNextRep_v2_def Let_def)
    then show ?thesis using 1 assms defaultEF_lower by (simp add: card_inv_def)
  next
    case 2
    then have "CalcNextRep_v2 now h c = Some (c\<lparr>Reps := 2, Hardnesses := Hardnesses c @ [h],
        NextRep := now + Hour * 24 * 4, EFs := EFs c @ [defaultEF]\<rparr>)"
      by (simp add: CalcNextRep_v2_def Let_def)
    then show ?thesis using 2 assms defaultEF_lower by (simp add: card_inv_def)
  next
    case 3
    let ?e = "calcEf (EFs c ! nat (Reps c - 1)) h"
    let ?c3 = "c\<lparr>Reps := Reps c + 1, Hardnesses := Hardnesses c @ [h], EFs := EFs c @ [?e]\<rparr>"
    have "\<exists>d. interval ?c3 (Reps c + 1) = Some d"
      using 3 assms by (intro interval_total) (auto simp: card_inv_def)
    then obtain d where d: "interval ?c3 (Reps c + 1) = Some d" ..
    have i1: "index (EFs c) (Reps c - 1) = Some (EFs c ! nat (Reps c - 1))"
      using 3 assms by (simp add: index_def card_inv_def)
    have i2: "index (Hardnesses c @ [h]) (Reps c) = Some h"
      using 3 assms by (auto simp add: index_def card_inv_def nth_append)
    have "CalcNextRep_v2 now h c =
        Some (?c3\<lparr>NextRep := (if h = 5 then now else now + to_Duration (real_of_int Hour * 24 * d))\<rparr>)"
      using 3 d i1 i2 by (simp add: CalcNextRep_v2_def Let_def)
    then show ?thesis using 3 assms calcEf_lower [of "EFs c ! nat (Reps c - 1)" h]
      by (simp add: card_inv_def)
  qed
qed

lemma reviews_inv:
  "card_inv c \<Longrightarrow> \<exists>c' es. reviews rs c = Some c' \<and> card_inv c'
      \<and> Reps c' = Reps c + int (length rs)
      \<and> Hardnesses c' = Hardnesses c @ map snd rs
      \<and> EFs c' = EFs c @ es \<and> length es = length rs \<and> (\<forall>e \<in> set es. 1.3 \<le> e)"
proof (induction rs arbitrary: c)
  case Nil
  then show ?case by simp
next
  case (Cons r rs)
  obtain now h where r: "r = (now, h)" by (cases r)
  from CalcNextRep_inv [OF Cons.prems, of now h]
  obtain c1 e where c1: "CalcNextRep now h c = Some c1" "card_inv c1" "Reps c1 = Reps c + 1"
    "Hardnesses c1 = Hardnesses c @ [h]" "EFs c1 = EFs c @ [e]" "1.3 \<le> e" by blast
  from Cons.IH [OF c1(2)]
  obtain c' es where c': "reviews rs c1 = Some c'" "card_inv c'"
    "Reps c' = Reps c1 + int (length rs)" "Hardnesses c' = Hardnesses c1 @ map snd rs"
    "EFs c' = EFs c1 @ es" "length es = length rs" "\<forall>e \<in> set es. 1.3 \<le> e" by blast
  have "reviews (r # rs) c = Some c' \<and> card_inv c'
      \<and> Reps c' = Reps c + int (length (r # rs))
      \<and> Hardnesses c' = Hardnesses c @ map snd (r # rs)
      \<and> EFs c' = EFs c @ (e # es) \<and> length (e # es) = length (r # rs) \<and> (\<forall>x \<in> set (e # es). 1.3 \<le> x)"
    using r c1 c' by simp
  then show ?case by blast
qed

lemma reviews_v2_inv:
  "card_inv c \<Longrightarrow> \<exists>c' es. reviews_v2 rs c = Some c' \<and> card_inv c'
      \<and> Reps c' = Reps c + int (length rs)
      \<and> Hardnesses c' = Hardnesses c @ map snd rs
      \<and> EFs c' = EFs c @ es \<and> length es = length rs \<and> (\<forall>e \<in> set es. 1.3 \<le> e)"
proof (induction rs arbitrary: c)
  case Nil
  then show ?case by simp
next
  case (Cons r rs)
  obtain now h where r: "r = (now, h)" by (cases r)
  from CalcNextRep_v2_inv [OF Cons.prems, of now h]
  obtain c1 e where c1: "CalcNextRep_v2 now h c = Some c1" "card_inv c1" "Reps c1 = Reps c + 1"
    "Hardnesses c1 = Hardnesses c @ [h]" "EFs c1 = EFs c @ [e]" "1.3 \<le> e" by blast
  from Cons.IH [OF c1(2)]
  obtain c' es where c': "reviews_v2 rs c1 = Some c'" "card_inv c'"
    "Reps c' = Reps c1 + int (length rs)" "Hardnesses c' = Hardnesses c1 @ map snd rs"
    "EFs c' = EFs c1 @ es" "length es = length rs" "\<forall>e \<in> set es. 1.3 \<le> e" by blast
  have "reviews_v2 (r # rs) c = Some c' \<and> card_inv c'
      \<and> Reps c' = Reps c + int (length (r # rs))
      \<and> Hardnesses c' = Hardnesses c @ map snd (r # rs)
      \<and> EFs c' = EFs c @ (e # es) \<and> length (e # es) = length (r # rs) \<and> (\<forall>x \<in> set (e # es). 1.3 \<le> x)"
    using r c1 c' by simp
  then show ?case by blast
qed

text \<open>
  C1. On the third review the due offset is the interval \<open>I(3) = I(2) * EFs[2]\<close> with the
  just-appended easiness. For a new card reviewed three times, the third time with hardness 3,
  the appended easiness is 1.61; \<open>interval\<close> takes \<open>I(2) = 6\<close>, so the offset is
  \<open>6 * 1.61 = 9.66\<close> days and not \<open>4 * 1.61 = 6.44\<close> days.
\<close>

theorem third_review_offset:
  "\<exists>c. reviews [(t1, h1), (t2, h2), (t3, 3)] (NewCard p a t0) = Some c
       \<and> EFs c = [1.75, 1.75, 1.61]
       \<and> real_of_int (NextRep c - t3) = real_of_int (Hour * 24) * (6 * 1.61)
       \<and> real_of_int (NextRep c - t3) \<noteq> real_of_int (Hour * 24) * (4 * 1.61)"
  by (simp add: CalcNextRep_def NewCard_def Let_def index_def defaultEF_def calcEf_def
      interval.simps [of _ 3] interval.simps [of _ 2] to_Duration_def Hour_def)

text \<open>
  C4. In the revision of \<open>CalcNextRep\<close> that has the hardness-5 branch, a card with a
  consistent history on its third or a later review that is rated with hardness 5 becomes due
  at the current instant, whatever the interval; the easiness for that review is still computed
  from the previous easiness and appended.
\<close>

theorem hardness_five_due_now:
  assumes "card_inv c" and "2 \<le> Reps c"
  shows "CalcNextRep_v2 now 5 c =
           Some (c\<lparr>Reps := Reps c + 1, Hardnesses := Hardnesses c @ [5],
                   EFs := EFs c @ [calcEf (EFs c ! nat (Reps c - 1)) 5], NextRep := now\<rparr>)"
proof -
  have i1: "index (EFs c) (Reps c - 1) = Some (EFs c ! nat (Reps c - 1))"
    using assms by (simp add: index_def card_inv_def)
  have i2: "index (Hardnesses c @ [5]) (Reps c) = Some 5"
    using assms by (auto simp add: index_def card_inv_def nth_append)
  show ?thesis using assms(2) i1 i2 by (simp add: CalcNextRep_v2_def Let_def)
qed

theorem hardness_five_due_now_witness:
  "card_inv \<lparr>Id = 0, Prompt = ''p'', Answer = ''a'', Reps = 2, NextRep = 7,
             EFs = [1.75, 1.75], Hardnesses = [1, 2]\<rparr>
   \<and> CalcNextRep_v2 100 5 \<lparr>Id = 0, Prompt = ''p'', Answer = ''a'', Reps = 2, NextRep = 7,
             EFs = [1.75, 1.75], Hardnesses = [1, 2]\<rparr>
     = Some \<lparr>Id = 0, Prompt = ''p'', Answer = ''a'', Reps = 3, NextRep = 100,
             EFs = [1.75, 1.75, 1.85], Hardnesses = [1, 2, 5]\<rparr>"
proof -
  let ?c = "\<lparr>Id = 0, Prompt = ''p'', Answer = ''a'', Reps = 2, NextRep = 7,
             EFs = [1.75, 1.75], Hardnesses = [1, 2 :: go_int]\<rparr>"
  have inv: "card_inv ?c" by (simp add: card_inv_def)
  have r: "2 \<le> Reps ?c" by simp
  show ?thesis using inv hardness_five_due_now [OF inv r, of 100]
    by (simp add: calcEf_def)
qed

text \<open>
  The revision in deck/deck.go has no hardness-5 branch: there the same review makes the card
  due after the interval, \<open>6 * 1.85 = 11.1\<close> days.
\<close>

lemma CalcNextRep_hardness_five_interval:
  "CalcNextRep 100 5 \<lparr>Id = 0, Prompt = ''p'', Answer = ''a'', Reps = 2, NextRep = 7,
             EFs = [1.75, 1.75], Hardnesses = [1, 2]\<rparr>
     = Some \<lparr>Id = 0, Prompt = ''p'', Answer = ''a'', Reps = 3, NextRep = 100 + 959040000000000,
             EFs = [1.75, 1.75, 1.85], Hardnesses = [1, 2, 5]\<rparr>"
  by (simp add: CalcNextRep_def Let_def index_def calcEf_def
      interval.simps [of _ 3] interval.simps [of _ 2] to_Duration_def Hour_def)

text \<open>
  C6. A new card has no repetitions and empty histories, and after any sequence of reviews of
  a new card every call has completed and both histories are as long as the repetition count,
  which is the number of reviews. This holds for both revisions of \<open>CalcNextRep\<close>.
\<close>

theorem history_lengths_match_reps:
  "Reps (NewCard p a t0) = 0 \<and> EFs (NewCard p a t0) = [] \<and> Hardnesses (NewCard p a t0) = []
   \<and> (\<exists>c. reviews rs (NewCard p a t0) = Some c
          \<and> int (length (EFs c)) = Reps c \<and> int (length (Hardnesses c)) = Reps c
          \<and> Reps c = int (length rs))
   \<and> (\<exists>c. reviews_v2 rs (NewCard p a t0) = Some c
          \<and> int (length (EFs c)) = Reps c \<and> int (length (Hardnesses c)) = Reps c
          \<and> Reps c = int (length rs))"
proof -
  have inv: "card_inv (NewCard p a t0)" by (simp add: card_inv_def NewCard_def)
  have r0: "Reps (NewCard p a t0) = 0" by (simp add: NewCard_def)
  from reviews_inv [OF inv, of rs] r0
  have 1: "\<exists>c. reviews rs (NewCard p a t0) = Some c
          \<and> int (length (EFs c)) = Reps c \<and> int (length (Hardnesses c)) = Reps c
          \<and> Reps c = int (length rs)"
    unfolding card_inv_def by auto
  from reviews_v2_inv [OF inv, of rs] r0
  have 2: "\<exists>c. reviews_v2 rs (NewCard p a t0) = Some c
          \<and> int (length (EFs c)) = Reps c \<and> int (length (Hardnesses c)) = Reps c
          \<and> Reps c = int (length rs)"
    unfolding card_inv_def by auto
  show ?thesis using 1 2 by (simp add: NewCard_def)
qed

text \<open>
  C8. For every card with a consistent history, in particular a new one, and every sequence of
  reviews with arbitrary 64-bit hardness values, all reviews complete and append one easiness
  each, and every appended easiness is at least 1.3. This holds for both revisions of
  \<open>CalcNextRep\<close>.
\<close>

theorem easiness_at_least_floor:
  assumes "card_inv c"
  shows "(\<exists>c' es. reviews rs c = Some c' \<and> EFs c' = EFs c @ es \<and> length es = length rs
            \<and> (\<forall>e\<in>set es. 1.3 \<le> e))
       \<and> (\<exists>c' es. reviews_v2 rs c = Some c' \<and> EFs c' = EFs c @ es \<and> length es = length rs
            \<and> (\<forall>e\<in>set es. 1.3 \<le> e))"
  using reviews_inv [OF assms, of rs] reviews_v2_inv [OF assms, of rs] by blast

theorem easiness_at_least_floor_witness:
  "card_inv (NewCard ''p'' ''a'' 0)
   \<and> (\<exists>c'. reviews [(1, 0), (2, 9), (3, 1), (4, 4294967296)] (NewCard ''p'' ''a'' 0) = Some c'
         \<and> length (EFs c') = 4
         \<and> 1.3 \<le> EFs c' ! 0 \<and> 1.3 \<le> EFs c' ! 1 \<and> 1.3 \<le> EFs c' ! 2 \<and> 1.3 \<le> EFs c' ! 3)"
proof -
  let ?rs = "[(1, 0), (2, 9), (3, 1), (4, 4294967296)] :: (go_time \<times> go_int) list"
  have inv: "card_inv (NewCard ''p'' ''a'' 0)" by (simp add: card_inv_def NewCard_def)
  from easiness_at_least_floor [OF inv, of ?rs]
  obtain c' es where c': "reviews ?rs (NewCard ''p'' ''a'' 0) = Some c'"
    "EFs c' = EFs (NewCard ''p'' ''a'' 0) @ es" "length es = length ?rs"
    "\<forall>e\<in>set es. 1.3 \<le> e" by blast
  have l: "length (EFs c') = 4" using c'(2,3) by (simp add: NewCard_def)
  have "1.3 \<le> EFs c' ! i" if "i < 4" for i
  proof -
    have "EFs c' ! i \<in> set es" using that c'(2,3) by (simp add: NewCard_def)
    then show ?thesis using c'(4) by blast
  qed
  then have "1.3 \<le> EFs c' ! 0 \<and> 1.3 \<le> EFs c' ! 1 \<and> 1.3 \<le> EFs c' ! 2 \<and> 1.3 \<le> EFs c' ! 3"
    by simp
  then show ?thesis using inv c'(1) l by blast
qed

section \<open>Adding and deleting cards\<close>

lemma find_card_Some:
  "find_card cid cs = Some i \<Longrightarrow>
     i < length cs \<and> Id (cs ! i) = cid \<and> (\<forall>j<i. Id (cs ! j) \<noteq> cid)"
proof (induction cs arbitrary: i)
  case Nil
  then show ?case by simp
next
  case (Cons c cs)
  show ?case
  proof (cases "Id c = cid")
    case True
    with Cons.prems show ?thesis by simp
  next
    case False
    with Cons.prems obtain k where k: "find_card cid cs = Some k" "i = Suc k" by auto
    from Cons.IH [OF k(1)] False k(2) show ?thesis
      by (auto simp: nth_Cons split: nat.splits)
  qed
qed

lemma find_card_None: "find_card cid cs = None \<longleftrightarrow> (\<forall>c\<in>set cs. Id c \<noteq> cid)"
  by (induction cs) auto

lemma Max_ids_last:
  "cs \<noteq> [] \<Longrightarrow> sorted_wrt (<) (map Id cs) \<Longrightarrow> Max (Id ` set cs) = Id (last cs)"
proof (induction cs rule: rev_induct)
  case Nil
  then show ?case by simp
next
  case (snoc x xs)
  then have "\<forall>y\<in>set xs. Id y < Id x" by (auto simp: sorted_wrt_append)
  then have "Max (Id ` set (xs @ [x])) = Id x"
    by (intro Max_eqI) auto
  then show ?case by simp
qed

lemma AddCard_max_id:
  assumes "ids_ascending d"
  shows "AddCard d c =
           d\<lparr>Cards := Cards d @ [c\<lparr>Id := (if Cards d = [] then 0
                                           else Max (Id ` set (Cards d)) + 1)\<rparr>],
             Dirty := True\<rparr>"
proof (cases "Cards d = []")
  case True
  then show ?thesis by (simp add: AddCard_def)
next
  case False
  then have "Cards d ! (length (Cards d) - 1) = last (Cards d)"
    by (simp add: last_conv_nth)
  moreover have "Max (Id ` set (Cards d)) = Id (last (Cards d))"
    using False assms by (simp add: Max_ids_last ids_ascending_def)
  ultimately show ?thesis using False by (simp add: AddCard_def)
qed

lemma AddCard_ids_ascending: "ids_ascending d \<Longrightarrow> ids_ascending (AddCard d c)"
proof (cases "Cards d = []")
  case True
  then show ?thesis by (simp add: AddCard_def ids_ascending_def)
next
  case False
  assume a: "ids_ascending d"
  have l: "Cards d ! (length (Cards d) - 1) = last (Cards d)"
    using False by (simp add: last_conv_nth)
  have "Id x \<le> Id (last (Cards d))" if "x \<in> set (Cards d)" for x
  proof -
    have "Id x \<le> Max (Id ` set (Cards d))" using that by (intro Max_ge) auto
    then show ?thesis using Max_ids_last [OF False] a by (simp add: ids_ascending_def)
  qed
  then have "\<forall>x\<in>set (Cards d). Id x < Id (last (Cards d)) + 1" by force
  then show ?thesis using a False l
    by (auto simp: AddCard_def ids_ascending_def sorted_wrt_append)
qed

lemma DeleteCard_ids_ascending: "ids_ascending d \<Longrightarrow> ids_ascending (DeleteCard d cid)"
proof -
  assume a: "ids_ascending d"
  have "sorted_wrt (<) (map Id (take i (Cards d) @ drop (Suc i) (Cards d)))" for i
  proof -
    have "sorted_wrt (<) (map Id (take i (Cards d)) @ map Id (drop (Suc i) (Cards d)))"
      unfolding sorted_wrt_append
    proof (intro conjI ballI)
      show "sorted_wrt (<) (map Id (take i (Cards d)))"
        using a by (simp add: ids_ascending_def take_map [symmetric] sorted_wrt_take)
      show "sorted_wrt (<) (map Id (drop (Suc i) (Cards d)))"
        using a by (simp add: ids_ascending_def drop_map [symmetric] sorted_wrt_drop)
    next
      fix x y assume "x \<in> set (map Id (take i (Cards d)))" "y \<in> set (map Id (drop (Suc i) (Cards d)))"
      then obtain j k where "j < i" "j < length (Cards d)" "x = Id (Cards d ! j)"
         "k < length (Cards d) - Suc i" "y = Id (Cards d ! (Suc i + k))"
        by (auto simp: in_set_conv_nth)
      then show "x < y" using a
        by (auto simp: ids_ascending_def sorted_wrt_iff_nth_less)
    qed
    then show ?thesis by simp
  qed
  then show ?thesis using a by (simp add: DeleteCard_def ids_ascending_def split: option.splits)
qed

text \<open>
  C9. If some card of the deck has the id, \<open>DeleteCard\<close> removes the card at the first index
  with that id, keeps the other cards in their order and marks the deck dirty. If no card has
  the id, the deck is returned unchanged, cards and dirty flag included.
\<close>

theorem DeleteCard_removes_first_match:
  "(if \<exists>c\<in>set (Cards d). Id c = cid
    then \<exists>i<length (Cards d). Id (Cards d ! i) = cid \<and> (\<forall>j<i. Id (Cards d ! j) \<noteq> cid)
           \<and> DeleteCard d cid = d\<lparr>Cards := take i (Cards d) @ drop (Suc i) (Cards d), Dirty := True\<rparr>
    else DeleteCard d cid = d)"
proof (cases "find_card cid (Cards d)")
  case None
  then show ?thesis using find_card_None [of cid "Cards d"] by (simp add: DeleteCard_def)
next
  case (Some i)
  from find_card_Some [OF Some] have i: "i < length (Cards d)" "Id (Cards d ! i) = cid"
    "\<forall>j<i. Id (Cards d ! j) \<noteq> cid" by auto
  then have "\<exists>c\<in>set (Cards d). Id c = cid" using nth_mem [of i "Cards d"] by blast
  moreover have "DeleteCard d cid = d\<lparr>Cards := take i (Cards d) @ drop (Suc i) (Cards d), Dirty := True\<rparr>"
    using Some by (simp add: DeleteCard_def)
  ultimately show ?thesis using i by auto
qed

theorem DeleteCard_removes_first_match_witness:
  "(\<exists>c\<in>set [(NewCard ''p0'' ''a0'' 0)\<lparr>Id := 0\<rparr>, (NewCard ''p1'' ''a1'' 0)\<lparr>Id := 1\<rparr>,
              (NewCard ''p2'' ''a2'' 0)\<lparr>Id := 2\<rparr>]. Id c = 1)
   \<and> DeleteCard \<lparr>Path = ''deck.db'', DB = Some ''deck.db'',
        Cards = [(NewCard ''p0'' ''a0'' 0)\<lparr>Id := 0\<rparr>, (NewCard ''p1'' ''a1'' 0)\<lparr>Id := 1\<rparr>,
                 (NewCard ''p2'' ''a2'' 0)\<lparr>Id := 2\<rparr>], Dirty = False\<rparr> 1
      = \<lparr>Path = ''deck.db'', DB = Some ''deck.db'',
        Cards = [(NewCard ''p0'' ''a0'' 0)\<lparr>Id := 0\<rparr>, (NewCard ''p2'' ''a2'' 0)\<lparr>Id := 2\<rparr>],
        Dirty = True\<rparr>
   \<and> \<not> (\<exists>c\<in>set [(NewCard ''p0'' ''a0'' 0)\<lparr>Id := 0\<rparr>]. Id c = 5)
   \<and> DeleteCard \<lparr>Path = ''deck.db'', DB = Some ''deck.db'',
        Cards = [(NewCard ''p0'' ''a0'' 0)\<lparr>Id := 0\<rparr>], Dirty = False\<rparr> 5
      = \<lparr>Path = ''deck.db'', DB = Some ''deck.db'',
        Cards = [(NewCard ''p0'' ''a0'' 0)\<lparr>Id := 0\<rparr>], Dirty = False\<rparr>"
proof -
  let ?d = "\<lparr>Path = ''deck.db'', DB = Some ''deck.db'',
        Cards = [(NewCard ''p0'' ''a0'' 0)\<lparr>Id := 0\<rparr>, (NewCard ''p1'' ''a1'' 0)\<lparr>Id := 1\<rparr>,
                 (NewCard ''p2'' ''a2'' 0)\<lparr>Id := 2\<rparr>], Dirty = False\<rparr>"
  let ?e = "\<lparr>Path = ''deck.db'', DB = Some ''deck.db'',
        Cards = [(NewCard ''p0'' ''a0'' 0)\<lparr>Id := 0\<rparr>], Dirty = False\<rparr>"
  have m: "\<exists>c\<in>set (Cards ?d). Id c = 1" by (simp add: NewCard_def)
  have n: "\<not> (\<exists>c\<in>set (Cards ?e). Id c = 5)" by (simp add: NewCard_def)
  from DeleteCard_removes_first_match [of ?d 1] m
  obtain i where i: "i < length (Cards ?d)" "Id (Cards ?d ! i) = 1"
    "DeleteCard ?d 1 = ?d\<lparr>Cards := take i (Cards ?d) @ drop (Suc i) (Cards ?d), Dirty := True\<rparr>"
    by (simp only: if_True) blast
  have "i = 1" using i(1,2) by (auto simp: NewCard_def nth_Cons less_Suc_eq split: nat.splits)
  with i(3) have 1: "DeleteCard ?d 1 = \<lparr>Path = ''deck.db'', DB = Some ''deck.db'',
        Cards = [(NewCard ''p0'' ''a0'' 0)\<lparr>Id := 0\<rparr>, (NewCard ''p2'' ''a2'' 0)\<lparr>Id := 2\<rparr>],
        Dirty = True\<rparr>" by simp
  from DeleteCard_removes_first_match [of ?e 5] n
  have 2: "DeleteCard ?e 5 = ?e" by (simp only: if_False)
  show ?thesis using m n 1 2 by simp
qed

section \<open>Properties of the durable storage\<close>

lemmas storage_defs = OpenDeck_def sql_Open_def fault_def db_Query_cards_def db_op_def
  db_Exec_create_def db_Query_efs_def db_Query_hardnesses_def sel_cards_def sel_efs_def
  sel_hardnesses_def AddCard_def NewCard_def time_Unix_def Let_def empty_db_def
  Sync_def Sync_write_def db_Exec_insert_card_def db_Exec_insert_ef_def db_Exec_insert_hardness_def
  ins_card_def ins_ef_def ins_hardness_def next_rowid_def os_Remove_def os_Rename_def Unix_def

subsection \<open>The write phase of \<open>Sync\<close> leaves the original file alone\<close>

lemma db_op_other: "q \<noteq> p \<Longrightarrow> files (snd (db_op p f w)) q = files w q"
  by (auto simp: db_op_def fault_def Let_def split: list.splits bool.splits sum.splits prod.splits)

lemma db_op_otherD: "db_op p f w = (r, w1) \<Longrightarrow> q \<noteq> p \<Longrightarrow> files w1 q = files w q"
  using db_op_other [of q p f w] by simp

lemma sql_Open_files: "files (snd (sql_Open p w)) = files w"
  by (auto simp: sql_Open_def fault_def split: list.splits bool.splits prod.splits)

lemma Sync_efs_other: "q \<noteq> p \<Longrightarrow> files (snd (Sync_efs p k es w)) q = files w q"
proof (induction es arbitrary: w)
  case Nil
  then show ?case by simp
next
  case (Cons e es)
  obtain r w1 where r: "db_Exec_insert_ef p k e w = (r, w1)" by (cases "db_Exec_insert_ef p k e w")
  have "files w1 q = files w q"
    by (rule db_op_otherD [OF r [unfolded db_Exec_insert_ef_def] Cons.prems])
  then show ?case using r Cons.IH [OF Cons.prems, of w1] by (cases r) auto
qed

lemma Sync_hardnesses_other:
  "q \<noteq> p \<Longrightarrow> files (snd (Sync_hardnesses p k hs w)) q = files w q"
proof (induction hs arbitrary: w)
  case Nil
  then show ?case by simp
next
  case (Cons h hs)
  obtain r w1 where r: "db_Exec_insert_hardness p k h w = (r, w1)"
    by (cases "db_Exec_insert_hardness p k h w")
  have "files w1 q = files w q"
    by (rule db_op_otherD [OF r [unfolded db_Exec_insert_hardness_def] Cons.prems])
  then show ?case using r Cons.IH [OF Cons.prems, of w1] by (cases r) auto
qed

lemma Sync_cards_other: "q \<noteq> p \<Longrightarrow> files (snd (Sync_cards p cs w)) q = files w q"
proof (induction cs arbitrary: w)
  case Nil
  then show ?case by simp
next
  case (Cons c cs)
  obtain r w1 where r: "db_Exec_insert_card p (Prompt c, Answer c, Reps c, Unix (NextRep c)) w = (r, w1)"
    by (cases "db_Exec_insert_card p (Prompt c, Answer c, Reps c, Unix (NextRep c)) w")
  have w1: "files w1 q = files w q"
    by (rule db_op_otherD [OF r [unfolded db_Exec_insert_card_def] Cons.prems])
  show ?case
  proof (cases r)
    case (Inl e)
    then show ?thesis using r w1 by (simp add: Let_def)
  next
    case (Inr k)
    obtain r2 w2 where r2: "Sync_efs p k (EFs c) w1 = (r2, w2)" by (cases "Sync_efs p k (EFs c) w1")
    then have w2: "files w2 q = files w q" using Sync_efs_other [OF Cons.prems, of k "EFs c" w1] w1 by simp
    obtain r3 w3 where r3: "Sync_hardnesses p k (Hardnesses c) w2 = (r3, w3)"
      by (cases "Sync_hardnesses p k (Hardnesses c) w2")
    then have w3: "files w3 q = files w q"
      using Sync_hardnesses_other [OF Cons.prems, of k "Hardnesses c" w2] w2 by simp
    show ?thesis using r Inr r2 r3 w1 w2 w3 Cons.IH [OF Cons.prems, of w3]
      by (cases r2; cases r3) (simp_all add: Let_def)
  qed
qed

lemma Sync_write_original: "files (snd (Sync_write d w)) (Path d) = files w (Path d)"
proof -
  let ?np = "Path d @ ''.sync''"
  have ne: "Path d \<noteq> ?np" by simp
  obtain r1 w1 where r1: "sql_Open ?np w = (r1, w1)" by (cases "sql_Open ?np w")
  then have w1: "files w1 = files w" using sql_Open_files [of ?np w] by simp
  show ?thesis
  proof (cases r1)
    case (Inl e)
    then show ?thesis using r1 w1 by (simp add: Sync_write_def)
  next
    case (Inr h)
    then have h: "h = ?np" using r1 by (auto simp: sql_Open_def split: prod.splits bool.splits)
    obtain r2 w2 where r2: "db_Exec_create ?np w1 = (r2, w2)" by (cases "db_Exec_create ?np w1")
    then have w2: "files w2 (Path d) = files w (Path d)"
      using db_op_otherD [OF r2 [unfolded db_Exec_create_def] ne] w1 by simp
    show ?thesis using r1 Inr h r2 w2 Sync_cards_other [OF ne, of "Cards d" w2]
      by (cases r2) (simp_all add: Sync_write_def)
  qed
qed

lemma db_op_agree:
  assumes "db_op p f w = (r, w1)" and "files w p = files w' p" and "faults w = faults w'"
  shows "\<exists>w1'. db_op p f w' = (r, w1') \<and> files w1 p = files w1' p \<and> faults w1 = faults w1'"
  using assms
  by (auto simp: db_op_def fault_def Let_def split: list.splits bool.splits sum.splits prod.splits
      option.splits)

lemma sql_Open_agree:
  assumes "sql_Open p w = (r, w1)" and "files w p = files w' p" and "faults w = faults w'"
  shows "\<exists>w1'. sql_Open p w' = (r, w1') \<and> files w1 p = files w1' p \<and> faults w1 = faults w1'"
  using assms
  by (auto simp: sql_Open_def fault_def split: list.splits bool.splits prod.splits)

lemma load_cards_agree:
  "files w p = files w' p \<Longrightarrow> faults w = faults w' \<Longrightarrow>
   fst (load_cards p now rows deck w) = fst (load_cards p now rows deck w')"
proof (induction rows arbitrary: deck w w')
  case Nil
  then show ?case by simp
next
  case (Cons row rows)
  obtain k pr an rp nx where row: "row = (k, pr, an, rp, nx)" by (cases row)
  obtain r1 w1 where r1: "db_Query_efs p k w = (r1, w1)" by (cases "db_Query_efs p k w")
  from db_op_agree [OF r1 [unfolded db_Query_efs_def] Cons.prems]
  obtain w1' where w1': "db_Query_efs p k w' = (r1, w1')" "files w1 p = files w1' p"
    "faults w1 = faults w1'" by (auto simp: db_Query_efs_def)
  show ?case
  proof (cases r1)
    case (Inl e)
    then show ?thesis using row r1 w1' by (simp add: Let_def)
  next
    case (Inr efs)
    obtain r2 w2 where r2: "db_Query_hardnesses p k w1 = (r2, w2)"
      by (cases "db_Query_hardnesses p k w1")
    from db_op_agree [OF r2 [unfolded db_Query_hardnesses_def] w1'(2,3)]
    obtain w2' where w2': "db_Query_hardnesses p k w1' = (r2, w2')" "files w2 p = files w2' p"
      "faults w2 = faults w2'" by (auto simp: db_Query_hardnesses_def)
    show ?thesis
    proof (cases r2)
      case (Inl e)
      then show ?thesis using row r1 w1' Inr r2 w2' by (simp add: Let_def)
    next
      case (Inr hs)
      then show ?thesis using row r1 w1' \<open>r1 = Inr efs\<close> r2 w2' Cons.IH [OF w2'(2,3)]
        by (simp add: Let_def)
    qed
  qed
qed

lemma OpenDeck_agree:
  assumes "files w p = files w' p" and "faults w = faults w'"
  shows "fst (OpenDeck p now w) = fst (OpenDeck p now w')"
proof -
  obtain r1 w1 where r1: "sql_Open p w = (r1, w1)" by (cases "sql_Open p w")
  from sql_Open_agree [OF r1 assms]
  obtain w1' where w1': "sql_Open p w' = (r1, w1')" "files w1 p = files w1' p"
    "faults w1 = faults w1'" by auto
  show ?thesis
  proof (cases r1)
    case (Inl e)
    then show ?thesis using r1 w1' by (simp add: OpenDeck_def)
  next
    case (Inr h)
    then have h: "h = p" using r1 by (auto simp: sql_Open_def split: prod.splits bool.splits)
    obtain r2 w2 where r2: "db_Query_cards p w1 = (r2, w2)" by (cases "db_Query_cards p w1")
    from db_op_agree [OF r2 [unfolded db_Query_cards_def] w1'(2,3)]
    obtain w2' where w2': "db_Query_cards p w1' = (r2, w2')" "files w2 p = files w2' p"
      "faults w2 = faults w2'" by (auto simp: db_Query_cards_def)
    show ?thesis
    proof (cases r2)
      case (Inl e)
      obtain r3 w3 where r3: "db_Exec_create p w2 = (r3, w3)" by (cases "db_Exec_create p w2")
      from db_op_agree [OF r3 [unfolded db_Exec_create_def] w2'(2,3)]
      obtain w3' where w3': "db_Exec_create p w2' = (r3, w3')" by (auto simp: db_Exec_create_def)
      show ?thesis using r1 w1' Inr h r2 w2' Inl r3 w3'
        by (cases r3) (simp_all add: OpenDeck_def Let_def)
    next
      case (Inr rows)
      have "fst (load_cards p now rows \<lparr>Path = p, DB = Some p, Cards = [], Dirty = False\<rparr> w2)
          = fst (load_cards p now rows \<lparr>Path = p, DB = Some p, Cards = [], Dirty = False\<rparr> w2')"
        by (rule load_cards_agree [OF w2'(2,3)])
      then show ?thesis using r1 w1' \<open>r1 = Inr h\<close> h r2 w2' Inr
        by (auto simp: OpenDeck_def Let_def split: prod.splits sum.splits)
    qed
  qed
qed

text \<open>
  C5. If the write phase of \<open>Sync\<close> fails (opening the temporary store, creating its schema
  or any insert), \<open>Sync\<close> returns that error without reaching the swap, the deck is as it
  was, and the file at the deck's path is untouched: \<open>OpenDeck\<close> on it gives what it gave
  before the sync, under any schedule of later failures.
\<close>

theorem Sync_write_failure_keeps_original:
  assumes "Sync_write d w = (Inl err, w1)"
  shows "Sync d w = ((Some err, d), w1)
       \<and> files w1 (Path d) = files w (Path d)
       \<and> fst (OpenDeck (Path d) now (w1\<lparr>faults := fs\<rparr>))
           = fst (OpenDeck (Path d) now (w\<lparr>faults := fs\<rparr>))"
proof -
  have 1: "Sync d w = ((Some err, d), w1)" using assms by (simp add: Sync_def)
  have 2: "files w1 (Path d) = files w (Path d)" using Sync_write_original [of d w] assms by simp
  have 3: "fst (OpenDeck (Path d) now (w1\<lparr>faults := fs\<rparr>))
           = fst (OpenDeck (Path d) now (w\<lparr>faults := fs\<rparr>))"
    by (rule OpenDeck_agree) (simp_all add: 2)
  show ?thesis using 1 2 3 by simp
qed

theorem Sync_write_failure_keeps_original_witness:
  "fst (Sync_write
      \<lparr>Path = ''deck.db'', DB = Some ''deck.db'',
       Cards = [\<lparr>Id = 0, Prompt = ''new'', Answer = ''card'', Reps = 1, NextRep = 86400000000000,
                 EFs = [1.75], Hardnesses = [3]\<rparr>], Dirty = True\<rparr>
      \<lparr>files = (\<lambda>p. None)(''deck.db'' \<mapsto>
         \<lparr>schema = True, cards_t = [(1, ''old'', ''card'', 0, 50)], efs_t = [], hardnesses_t = []\<rparr>),
       faults = [False, False, False, True]\<rparr>) = Inl IOFailure
   \<and> fst (fst (Sync
      \<lparr>Path = ''deck.db'', DB = Some ''deck.db'',
       Cards = [\<lparr>Id = 0, Prompt = ''new'', Answer = ''card'', Reps = 1, NextRep = 86400000000000,
                 EFs = [1.75], Hardnesses = [3]\<rparr>], Dirty = True\<rparr>
      \<lparr>files = (\<lambda>p. None)(''deck.db'' \<mapsto>
         \<lparr>schema = True, cards_t = [(1, ''old'', ''card'', 0, 50)], efs_t = [], hardnesses_t = []\<rparr>),
       faults = [False, False, False, True]\<rparr>)) = Some IOFailure
   \<and> fst (OpenDeck ''deck.db'' 0 ((snd (Sync
      \<lparr>Path = ''deck.db'', DB = Some ''deck.db'',
       Cards = [\<lparr>Id = 0, Prompt = ''new'', Answer = ''card'', Reps = 1, NextRep = 86400000000000,
                 EFs = [1.75], Hardnesses = [3]\<rparr>], Dirty = True\<rparr>
      \<lparr>files = (\<lambda>p. None)(''deck.db'' \<mapsto>
         \<lparr>schema = True, cards_t = [(1, ''old'', ''card'', 0, 50)], efs_t = [], hardnesses_t = []\<rparr>),
       faults = [False, False, False, True]\<rparr>))\<lparr>faults := []\<rparr>))
     = Inr \<lparr>Path = ''deck.db'', DB = Some ''deck.db'',
            Cards = [\<lparr>Id = 0, Prompt = ''old'', Answer = ''card'', Reps = 0, NextRep = 50000000000,
                      EFs = [], Hardnesses = []\<rparr>], Dirty = False\<rparr>"
proof -
  let ?d = "\<lparr>Path = ''deck.db'', DB = Some ''deck.db'',
       Cards = [\<lparr>Id = 0, Prompt = ''new'', Answer = ''card'', Reps = 1, NextRep = 86400000000000,
                 EFs = [1.75], Hardnesses = [3 :: go_int]\<rparr>], Dirty = True\<rparr>"
  let ?w = "\<lparr>files = (\<lambda>p. None)(''deck.db'' \<mapsto>
         \<lparr>schema = True, cards_t = [(1, ''old'', ''card'', 0, 50)], efs_t = [], hardnesses_t = []\<rparr>),
       faults = [False, False, False, True]\<rparr>"
  have f: "fst (Sync_write ?d ?w) = Inl IOFailure" by (simp add: storage_defs)
  then obtain w1 where w1: "Sync_write ?d ?w = (Inl IOFailure, w1)"
    by (cases "Sync_write ?d ?w") simp
  have old: "fst (OpenDeck ''deck.db'' 0 (?w\<lparr>faults := []\<rparr>))
     = Inr \<lparr>Path = ''deck.db'', DB = Some ''deck.db'',
            Cards = [\<lparr>Id = 0, Prompt = ''old'', Answer = ''card'', Reps = 0, NextRep = 50000000000,
                      EFs = [], Hardnesses = []\<rparr>], Dirty = False\<rparr>"
    by (simp add: storage_defs)
  from Sync_write_failure_keeps_original [OF w1, of 0 "[]"] old f
  show ?thesis by simp
qed

subsection \<open>Loading\<close>

lemma AddCard_ids_from_0:
  assumes "map Id (Cards d) = map int [0..<length (Cards d)]"
  shows "map Id (Cards (AddCard d c)) = map int [0..<length (Cards (AddCard d c))]"
proof (cases "Cards d = []")
  case True
  then show ?thesis by (simp add: AddCard_def)
next
  case False
  then have "Id (Cards d ! (length (Cards d) - 1)) = map Id (Cards d) ! (length (Cards d) - 1)"
    by simp
  also have "\<dots> = int (length (Cards d) - 1)"
    using False by (simp only: assms) simp
  finally have "Id (Cards d ! (length (Cards d) - 1)) + 1 = int (length (Cards d))"
    using False by (simp add: of_nat_diff Suc_leI)
  then show ?thesis using False assms by (simp add: AddCard_def)
qed

lemma load_cards_ids_from_0:
  "load_cards p now rows deck w = (Inr d, w') \<Longrightarrow>
   map Id (Cards deck) = map int [0..<length (Cards deck)] \<Longrightarrow>
   map Id (Cards d) = map int [0..<length (Cards d)]"
proof (induction rows arbitrary: deck w)
  case Nil
  then show ?case by simp
next
  case (Cons row rows)
  obtain k pr an rp nx where row: "row = (k, pr, an, rp, nx)" by (cases row)
  obtain r1 w1 where r1: "db_Query_efs p k w = (r1, w1)" by (cases "db_Query_efs p k w")
  obtain r2 w2 where r2: "db_Query_hardnesses p k w1 = (r2, w2)"
    by (cases "db_Query_hardnesses p k w1")
  from Cons.prems(1) row r1 obtain efs where efs: "r1 = Inr efs"
    by (cases r1) (auto simp: Let_def split: if_splits)
  from Cons.prems(1) row r1 efs r2 obtain hs where hs: "r2 = Inr hs"
    by (cases r2) (auto simp: Let_def split: if_splits)
  let ?c = "(NewCard pr an now)\<lparr>Id := k, Reps := rp, NextRep := time_Unix nx,
             EFs := EFs (NewCard pr an now) @ efs, Hardnesses := Hardnesses (NewCard pr an now) @ hs\<rparr>"
  have "load_cards p now rows (AddCard deck ?c) w2 = (Inr d, w')"
    using Cons.prems(1) row r1 efs r2 hs by (simp add: Let_def)
  then show ?case using AddCard_ids_from_0 [OF Cons.prems(2)] by (rule Cons.IH)
qed

lemma OpenDeck_ids_from_0:
  assumes "OpenDeck path now w = (Inr d, w')"
  shows "map Id (Cards d) = map int [0..<length (Cards d)]"
proof -
  let ?deck = "\<lparr>Path = path, DB = Some path, Cards = [], Dirty = False\<rparr>"
  obtain r1 w1 where r1: "sql_Open path w = (r1, w1)" by (cases "sql_Open path w")
  with assms obtain h where h: "r1 = Inr h" by (cases r1) (auto simp: OpenDeck_def)
  then have hp: "h = path" using r1 by (auto simp: sql_Open_def split: prod.splits bool.splits)
  obtain r2 w2 where r2: "db_Query_cards path w1 = (r2, w2)" by (cases "db_Query_cards path w1")
  show ?thesis
  proof (cases r2)
    case (Inl e)
    then have "d = ?deck" using assms r1 h hp r2
      by (auto simp: OpenDeck_def Let_def split: if_splits prod.splits sum.splits)
    then show ?thesis by simp
  next
    case (Inr rows)
    then obtain d0 where d0: "load_cards path now rows ?deck w2 = (Inr d0, w')" "d = d0\<lparr>Dirty := False\<rparr>"
      using assms r1 h hp r2
      by (auto simp: OpenDeck_def Let_def split: if_splits prod.splits sum.splits)
    from load_cards_ids_from_0 [OF d0(1)] d0(2) show ?thesis by simp
  qed
qed

text \<open>
  C10. After every successful \<open>OpenDeck\<close> the card at position \<open>i\<close> of the deck has id
  \<open>i\<close>, whatever ids the rows of the store carry: each loaded card goes through
  \<open>AddCard\<close>, which overwrites the id read from the row.
\<close>

theorem OpenDeck_ids_are_positions:
  assumes "OpenDeck path now w = (Inr d, w')"
  shows "\<forall>i<length (Cards d). Id (Cards d ! i) = int i"
proof (intro allI impI)
  fix i assume i: "i < length (Cards d)"
  then have "Id (Cards d ! i) = map Id (Cards d) ! i" by simp
  also have "\<dots> = int i" using i by (simp only: OpenDeck_ids_from_0 [OF assms]) simp
  finally show "Id (Cards d ! i) = int i" .
qed

theorem OpenDeck_ids_are_positions_witness:
  "\<exists>d w'. OpenDeck ''deck.db'' 0
       \<lparr>files = (\<lambda>p. None)(''deck.db'' \<mapsto>
          \<lparr>schema = True, cards_t = [(7, ''p7'', ''a7'', 0, 50), (3, ''p3'', ''a3'', 0, 20)],
           efs_t = [], hardnesses_t = []\<rparr>), faults = []\<rparr> = (Inr d, w')
     \<and> map Prompt (Cards d) = [''p3'', ''p7'']
     \<and> Id (Cards d ! 0) = 0 \<and> Id (Cards d ! 1) = 1"
proof -
  let ?w = "\<lparr>files = (\<lambda>p. None)(''deck.db'' \<mapsto>
          \<lparr>schema = True, cards_t = [(7, ''p7'', ''a7'', 0, 50), (3, ''p3'', ''a3'', 0, 20)],
           efs_t = [], hardnesses_t = []\<rparr>), faults = []\<rparr>"
  let ?d = "\<lparr>Path = ''deck.db'', DB = Some ''deck.db'',
           Cards = [\<lparr>Id = 0, Prompt = ''p3'', Answer = ''a3'', Reps = 0, NextRep = 20000000000,
                     EFs = [], Hardnesses = []\<rparr>,
                    \<lparr>Id = 1, Prompt = ''p7'', Answer = ''a7'', Reps = 0, NextRep = 50000000000,
                     EFs = [], Hardnesses = []\<rparr>],
           Dirty = False\<rparr>"
  have o: "OpenDeck ''deck.db'' 0 ?w = (Inr ?d, ?w)"
    by (simp add: storage_defs)
  from OpenDeck_ids_are_positions [OF o]
  have "Id (Cards ?d ! 0) = int 0" and "Id (Cards ?d ! 1) = int 1" by simp_all
  then have r: "OpenDeck ''deck.db'' 0 ?w = (Inr ?d, ?w) \<and> map Prompt (Cards ?d) = [''p3'', ''p7'']
     \<and> Id (Cards ?d ! 0) = 0 \<and> Id (Cards ?d ! 1) = 1"
    using o by simp
  show ?thesis by (rule exI [of _ ?d], rule exI [of _ ?w], rule r)
qed

lemma OpenDeck_ids_ascending:
  assumes "OpenDeck path now w = (Inr d, w')"
  shows "ids_ascending d"
proof -
  have "sorted_wrt (<) (map int [0..<length (Cards d)])"
    by (simp add: sorted_wrt_map sorted_wrt_upt)
  then show ?thesis by (simp add: ids_ascending_def OpenDeck_ids_from_0 [OF assms])
qed

lemma db_Query_efs_not_ErrNoRows: "db_Query_efs p k w \<noteq> (Inl ErrNoRows, w1)"
  by (auto simp: db_Query_efs_def db_op_def fault_def Let_def
      split: list.splits bool.splits sum.splits prod.splits option.splits if_splits)

lemma db_Query_hardnesses_not_ErrNoRows: "db_Query_hardnesses p k w \<noteq> (Inl ErrNoRows, w1)"
  by (auto simp: db_Query_hardnesses_def db_op_def fault_def Let_def
      split: list.splits bool.splits sum.splits prod.splits option.splits if_splits)

lemma load_cards_never_missing_history:
  "fst (load_cards p now rows deck w) \<noteq> Inl NoEasinessFactors \<and>
   fst (load_cards p now rows deck w) \<noteq> Inl NoHardnessFactors"
proof (induction rows arbitrary: deck w)
  case Nil
  then show ?case by simp
next
  case (Cons row rows)
  obtain k pr an rp nx where row: "row = (k, pr, an, rp, nx)" by (cases row)
  obtain r1 w1 where r1: "db_Query_efs p k w = (r1, w1)" by (cases "db_Query_efs p k w")
  obtain r2 w2 where r2: "db_Query_hardnesses p k w1 = (r2, w2)"
    by (cases "db_Query_hardnesses p k w1")
  show ?case
  proof (cases r1)
    case (Inl e)
    then have "e \<noteq> ErrNoRows" using r1 db_Query_efs_not_ErrNoRows [of p k w w1] by auto
    then show ?thesis using row r1 Inl by (simp add: Let_def)
  next
    case (Inr efs)
    show ?thesis
    proof (cases r2)
      case (Inl e)
      then have "e \<noteq> ErrNoRows"
        using r2 db_Query_hardnesses_not_ErrNoRows [of p k w1 w2] by auto
      then show ?thesis using row r1 Inr r2 Inl by (simp add: Let_def)
    next
      case (Inr hs)
      then show ?thesis using row r1 \<open>r1 = Inr efs\<close> r2 Cons.IH by (simp add: Let_def)
    qed
  qed
qed

lemma OpenDeck_never_missing_history:
  "fst (OpenDeck path now w) \<noteq> Inl NoEasinessFactors \<and>
   fst (OpenDeck path now w) \<noteq> Inl NoHardnessFactors"
proof -
  have q: "db_Query_cards p w1 = (Inl e, w2) \<Longrightarrow> e = IOFailure \<or> e = NoSuchTable" for p w1 e w2
    by (auto simp: db_Query_cards_def db_op_def fault_def Let_def
        split: list.splits bool.splits sum.splits prod.splits option.splits if_splits)
  have c: "db_Exec_create p w1 = (Inl e, w2) \<Longrightarrow> e = IOFailure \<or> e = TableExists" for p w1 e w2
    by (auto simp: db_Exec_create_def db_op_def fault_def Let_def
        split: list.splits bool.splits sum.splits prod.splits option.splits if_splits)
  have o: "sql_Open p w1 = (Inl e, w2) \<Longrightarrow> e = IOFailure" for p w1 e w2
    by (auto simp: sql_Open_def fault_def split: list.splits bool.splits prod.splits)
  have l: "load_cards p now rows deck w1 = (Inl e, w2) \<Longrightarrow>
      e \<noteq> NoEasinessFactors \<and> e \<noteq> NoHardnessFactors" for p rows deck w1 e w2
    using load_cards_never_missing_history [of p now rows deck w1] by auto
  show ?thesis
    by (auto simp: OpenDeck_def Let_def split: prod.splits sum.splits dest!: q c o l)
qed

text \<open>
  C3. A store whose only card has two repetitions and no easiness or hardness rows: the history
  queries return no rows and no error, so \<open>OpenDeck\<close> does not fail; it returns a deck
  holding the card with empty histories. No store and no failure schedule make \<open>OpenDeck\<close>
  return one of the two missing-history errors (\<open>OpenDeck_never_missing_history\<close>).
\<close>

theorem OpenDeck_accepts_missing_history:
  "fst (OpenDeck ''deck.db'' now
     \<lparr>files = (\<lambda>p. None)(''deck.db'' \<mapsto>
        \<lparr>schema = True, cards_t = [(1, ''p'', ''a'', 2, 50)], efs_t = [], hardnesses_t = []\<rparr>),
      faults = []\<rparr>)
   = Inr \<lparr>Path = ''deck.db'', DB = Some ''deck.db'',
          Cards = [\<lparr>Id = 0, Prompt = ''p'', Answer = ''a'', Reps = 2, NextRep = 50000000000,
                    EFs = [], Hardnesses = []\<rparr>],
          Dirty = False\<rparr>"
  by (simp add: storage_defs)

subsection \<open>\<open>Sync\<close> followed by \<open>OpenDeck\<close>\<close>

lemma next_rowid_greater: "x \<in> set ids \<Longrightarrow> x < next_rowid ids"
proof -
  assume x: "x \<in> set ids"
  then have "x \<le> Max (set ids)" by (intro Max_ge) auto
  then show ?thesis using x by (auto simp: next_rowid_def)
qed

lemma sel_efs_sorted:
  assumes "sorted (map fst (efs_t d))"
  shows "sel_efs k d = map (\<lambda>r. snd (snd r)) (filter (\<lambda>r. fst (snd r) = k) (efs_t d))"
proof -
  have f: "(\<lambda>(rid, cid, ef). cid = k) = (\<lambda>r. fst (snd r) = k)" by auto
  have g: "(\<lambda>(rid :: int, cid :: int, ef :: real). rid) = fst" by auto
  have h: "(\<lambda>(rid :: int, cid :: int, ef :: real). ef) = (\<lambda>r. snd (snd r))" by auto
  have "sorted (map fst (filter (\<lambda>r. fst (snd r) = k) (efs_t d)))"
    using assms by (rule sorted_filter)
  then show ?thesis by (simp add: sel_efs_def f g h sort_key_id_if_sorted)
qed

lemma sel_hardnesses_sorted:
  assumes "sorted (map fst (hardnesses_t d))"
  shows "sel_hardnesses k d =
           map (\<lambda>r. snd (snd r)) (filter (\<lambda>r. fst (snd r) = k) (hardnesses_t d))"
proof -
  have f: "(\<lambda>(rid, cid, h). cid = k) = (\<lambda>r. fst (snd r) = k)" by auto
  have g: "(\<lambda>(rid :: int, cid :: int, h :: go_int). rid) = fst" by auto
  have h: "(\<lambda>(rid :: int, cid :: int, h :: go_int). h) = (\<lambda>r. snd (snd r))" by auto
  have "sorted (map fst (filter (\<lambda>r. fst (snd r) = k) (hardnesses_t d)))"
    using assms by (rule sorted_filter)
  then show ?thesis by (simp add: sel_hardnesses_def f g h sort_key_id_if_sorted)
qed

lemma sorted_snoc_next_rowid:
  "sorted ids \<Longrightarrow> sorted (ids @ [next_rowid ids])"
  using next_rowid_greater [of _ ids] by (fastforce simp: sorted_append)

lemma foldl_ins_ef:
  "schema (foldl (\<lambda>d e. ins_ef k e d) d es) = schema d \<and>
   cards_t (foldl (\<lambda>d e. ins_ef k e d) d es) = cards_t d \<and>
   hardnesses_t (foldl (\<lambda>d e. ins_ef k e d) d es) = hardnesses_t d \<and>
   (sorted (map fst (efs_t d)) \<longrightarrow> sorted (map fst (efs_t (foldl (\<lambda>d e. ins_ef k e d) d es)))) \<and>
   (\<exists>R. efs_t (foldl (\<lambda>d e. ins_ef k e d) d es) = efs_t d @ R \<and> map snd R = map (Pair k) es)"
proof (induction es arbitrary: d)
  case Nil
  then show ?case by simp
next
  case (Cons e es)
  let ?d1 = "ins_ef k e d"
  from Cons.IH [of ?d1] obtain R where
    R: "efs_t (foldl (\<lambda>d e. ins_ef k e d) ?d1 es) = efs_t ?d1 @ R" "map snd R = map (Pair k) es"
    by blast
  have s: "sorted (map fst (efs_t d)) \<Longrightarrow> sorted (map fst (efs_t ?d1))"
    using sorted_snoc_next_rowid [of "map fst (efs_t d)"] by (simp add: ins_ef_def)
  have "efs_t (foldl (\<lambda>d e. ins_ef k e d) d (e # es))
      = efs_t d @ ((next_rowid (map fst (efs_t d)), k, e) # R)
      \<and> map snd ((next_rowid (map fst (efs_t d)), k, e) # R) = map (Pair k) (e # es)"
    using R by (simp add: ins_ef_def)
  then have "\<exists>R. efs_t (foldl (\<lambda>d e. ins_ef k e d) d (e # es)) = efs_t d @ R
      \<and> map snd R = map (Pair k) (e # es)" by blast
  then show ?case using Cons.IH [of ?d1] s by (simp add: ins_ef_def)
qed

lemma foldl_ins_hardness:
  "schema (foldl (\<lambda>d h. ins_hardness k h d) d hs) = schema d \<and>
   cards_t (foldl (\<lambda>d h. ins_hardness k h d) d hs) = cards_t d \<and>
   efs_t (foldl (\<lambda>d h. ins_hardness k h d) d hs) = efs_t d \<and>
   (sorted (map fst (hardnesses_t d)) \<longrightarrow>
      sorted (map fst (hardnesses_t (foldl (\<lambda>d h. ins_hardness k h d) d hs)))) \<and>
   (\<exists>R. hardnesses_t (foldl (\<lambda>d h. ins_hardness k h d) d hs) = hardnesses_t d @ R
        \<and> map snd R = map (Pair k) hs)"
proof (induction hs arbitrary: d)
  case Nil
  then show ?case by simp
next
  case (Cons h hs)
  let ?d1 = "ins_hardness k h d"
  from Cons.IH [of ?d1] obtain R where
    R: "hardnesses_t (foldl (\<lambda>d h. ins_hardness k h d) ?d1 hs) = hardnesses_t ?d1 @ R"
       "map snd R = map (Pair k) hs"
    by blast
  have s: "sorted (map fst (hardnesses_t d)) \<Longrightarrow> sorted (map fst (hardnesses_t ?d1))"
    using sorted_snoc_next_rowid [of "map fst (hardnesses_t d)"] by (simp add: ins_hardness_def)
  have "hardnesses_t (foldl (\<lambda>d h. ins_hardness k h d) d (h # hs))
      = hardnesses_t d @ ((next_rowid (map fst (hardnesses_t d)), k, h) # R)
      \<and> map snd ((next_rowid (map fst (hardnesses_t d)), k, h) # R) = map (Pair k) (h # hs)"
    using R by (simp add: ins_hardness_def)
  then have "\<exists>R. hardnesses_t (foldl (\<lambda>d h. ins_hardness k h d) d (h # hs)) = hardnesses_t d @ R
      \<and> map snd R = map (Pair k) (h # hs)" by blast
  then show ?case using Cons.IH [of ?d1] s by (simp add: ins_hardness_def)
qed

lemma rows_of_card:
  "map snd R = map (Pair k) xs \<Longrightarrow>
   filter (\<lambda>r. fst (snd r) = j) R = (if j = k then R else []) \<and>
   map (\<lambda>r. snd (snd r)) R = xs \<and> list_all (\<lambda>r. fst (snd r) = k) R"
proof (induction R arbitrary: xs)
  case Nil
  then show ?case by simp
next
  case (Cons r R)
  then obtain x xs' where xs: "xs = x # xs'" "snd r = (k, x)" "map snd R = map (Pair k) xs'"
    by (cases xs) auto
  from Cons.IH [OF xs(3)] xs(1,2) show ?case by auto
qed

lemma store_one:
  assumes wf: "db_wf d"
    and k: "k = next_rowid (map fst (cards_t d))"
    and d3: "d3 = foldl (\<lambda>d h. ins_hardness k h d)
                   (foldl (\<lambda>d e. ins_ef k e d) (d\<lparr>cards_t := cards_t d @ [(k, r)]\<rparr>) es) hs"
  shows "db_wf d3 \<and> schema d3 = schema d \<and> cards_t d3 = cards_t d @ [(k, r)]
       \<and> sel_efs k d3 = es \<and> sel_hardnesses k d3 = hs
       \<and> (\<forall>j\<in>fst ` set (cards_t d). sel_efs j d3 = sel_efs j d
             \<and> sel_hardnesses j d3 = sel_hardnesses j d)"
proof -
  let ?d1 = "d\<lparr>cards_t := cards_t d @ [(k, r)]\<rparr>"
  let ?d2 = "foldl (\<lambda>d e. ins_ef k e d) ?d1 es"
  have se: "sorted (map fst (efs_t d))" and sh: "sorted (map fst (hardnesses_t d))"
    and ce: "list_all (\<lambda>r. fst (snd r) \<in> fst ` set (cards_t d)) (efs_t d)"
    and ch: "list_all (\<lambda>r. fst (snd r) \<in> fst ` set (cards_t d)) (hardnesses_t d)"
    using wf by (simp_all add: db_wf_def)
  have knew: "k \<notin> fst ` set (cards_t d)"
    using next_rowid_greater [of k "map fst (cards_t d)"] k by auto
  from foldl_ins_ef [of k ?d1 es] se obtain R where
    d2: "schema ?d2 = schema d" "cards_t ?d2 = cards_t d @ [(k, r)]"
        "hardnesses_t ?d2 = hardnesses_t d" "sorted (map fst (efs_t ?d2))"
        "efs_t ?d2 = efs_t d @ R" "map snd R = map (Pair k) es"
    by auto
  from foldl_ins_hardness [of k ?d2 hs] sh d2 d3 obtain R' where
    d3': "schema d3 = schema d" "cards_t d3 = cards_t d @ [(k, r)]"
        "efs_t d3 = efs_t d @ R" "sorted (map fst (efs_t d3))"
        "sorted (map fst (hardnesses_t d3))"
        "hardnesses_t d3 = hardnesses_t d @ R'" "map snd R' = map (Pair k) hs"
    by auto
  note R = rows_of_card [OF d2(6)]
  note R' = rows_of_card [OF d3'(7)]
  have none_e: "filter (\<lambda>r. fst (snd r) = k) (efs_t d) = []"
    using ce knew by (auto simp: list_all_iff filter_empty_conv)
  have none_h: "filter (\<lambda>r. fst (snd r) = k) (hardnesses_t d) = []"
    using ch knew by (auto simp: list_all_iff filter_empty_conv)
  have wf3: "db_wf d3"
    using d3' ce ch R [of k] R' [of k] by (auto simp: db_wf_def list_all_iff)
  have ek: "sel_efs k d3 = es"
    using R [of k] none_e by (simp add: sel_efs_sorted [OF d3'(4)] d3'(3))
  have hk: "sel_hardnesses k d3 = hs"
    using R' [of k] none_h by (simp add: sel_hardnesses_sorted [OF d3'(5)] d3'(6))
  have old: "sel_efs j d3 = sel_efs j d \<and> sel_hardnesses j d3 = sel_hardnesses j d"
    if "j \<in> fst ` set (cards_t d)" for j
  proof -
    have "j \<noteq> k" using that knew by auto
    then show ?thesis using R [of j] R' [of j]
      by (simp add: sel_efs_sorted [OF d3'(4)] sel_efs_sorted [OF se]
          sel_hardnesses_sorted [OF d3'(5)] sel_hardnesses_sorted [OF sh] d3'(3) d3'(6))
  qed
  show ?thesis using wf3 d3'(1,2) ek hk old by blast
qed

lemma store_cards_view:
  "db_wf d \<Longrightarrow>
   db_wf (store_cards cs d) \<and> schema (store_cards cs d) = schema d \<and>
   map (\<lambda>r. (row_card (store_cards cs d) r)\<lparr>Id := 0\<rparr>) (cards_t (store_cards cs d))
     = map (\<lambda>r. (row_card d r)\<lparr>Id := 0\<rparr>) (cards_t d) @ map saved cs"
proof (induction cs arbitrary: d)
  case Nil
  then show ?case by simp
next
  case (Cons c cs)
  let ?k = "next_rowid (map fst (cards_t d))"
  let ?r = "(Prompt c, Answer c, Reps c, Unix (NextRep c))"
  let ?d3 = "foldl (\<lambda>d h. ins_hardness ?k h d)
                   (foldl (\<lambda>d e. ins_ef ?k e d) (d\<lparr>cards_t := cards_t d @ [(?k, ?r)]\<rparr>) (EFs c))
                   (Hardnesses c)"
  have sc: "store_cards (c # cs) d = store_cards cs ?d3"
    by (simp add: ins_card_def Let_def)
  from store_one [OF Cons.prems refl refl, of ?r "EFs c" "Hardnesses c"]
  have one: "db_wf ?d3" "schema ?d3 = schema d" "cards_t ?d3 = cards_t d @ [(?k, ?r)]"
    "sel_efs ?k ?d3 = EFs c" "sel_hardnesses ?k ?d3 = Hardnesses c"
    "\<forall>j\<in>fst ` set (cards_t d). sel_efs j ?d3 = sel_efs j d
        \<and> sel_hardnesses j ?d3 = sel_hardnesses j d"
    by blast+
  have oldrows: "map (\<lambda>r. (row_card ?d3 r)\<lparr>Id := 0\<rparr>) (cards_t d)
      = map (\<lambda>r. (row_card d r)\<lparr>Id := 0\<rparr>) (cards_t d)"
  proof (rule map_cong [OF refl])
    fix row assume "row \<in> set (cards_t d)"
    then have "fst row \<in> fst ` set (cards_t d)" by simp
    with one(6) have "sel_efs (fst row) ?d3 = sel_efs (fst row) d"
      "sel_hardnesses (fst row) ?d3 = sel_hardnesses (fst row) d" by blast+
    then show "(row_card ?d3 row)\<lparr>Id := 0\<rparr> = (row_card d row)\<lparr>Id := 0\<rparr>"
      by (cases row) (simp add: row_card_def)
  qed
  have newrow: "(row_card ?d3 (?k, ?r))\<lparr>Id := 0\<rparr> = saved c"
    using one(4,5) by (simp add: row_card_def saved_def)
  from Cons.IH [OF one(1)] one(2,3) oldrows newrow sc
  show ?case by simp
qed

lemma db_op_success:
  assumes "db_op p f w = (Inr x, w1)" and "files w p = Some d"
  shows "\<exists>d'. f d = Inr (x, d') \<and> files w1 = (files w)(p \<mapsto> d')"
  using assms
  by (auto simp: db_op_def fault_def Let_def
      split: list.splits bool.splits sum.splits prod.splits if_splits)

lemma Sync_efs_success:
  "Sync_efs p k es w = (Inr u, w1) \<Longrightarrow> files w p = Some d \<Longrightarrow> schema d \<Longrightarrow>
   files w1 = (files w)(p \<mapsto> foldl (\<lambda>d e. ins_ef k e d) d es)"
proof (induction es arbitrary: w d)
  case Nil
  then show ?case by auto
next
  case (Cons e es)
  obtain r w' where r: "db_Exec_insert_ef p k e w = (r, w')" by (cases "db_Exec_insert_ef p k e w")
  with Cons.prems(1) obtain x where x: "r = Inr x" by (cases r) auto
  from db_op_success [OF r [unfolded x db_Exec_insert_ef_def] Cons.prems(2)] Cons.prems(3)
  have w': "files w' = (files w)(p \<mapsto> ins_ef k e d)" by auto
  have p1: "files w' p = Some (ins_ef k e d)" using w' by simp
  have p2: "schema (ins_ef k e d)" using Cons.prems(3) by (simp add: ins_ef_def)
  have "Sync_efs p k es w' = (Inr u, w1)" using Cons.prems(1) r x by simp
  from Cons.IH [OF this p1 p2]
  show ?case by (simp only: w' fun_upd_upd foldl_Cons)
qed

lemma Sync_hardnesses_success:
  "Sync_hardnesses p k hs w = (Inr u, w1) \<Longrightarrow> files w p = Some d \<Longrightarrow> schema d \<Longrightarrow>
   files w1 = (files w)(p \<mapsto> foldl (\<lambda>d h. ins_hardness k h d) d hs)"
proof (induction hs arbitrary: w d)
  case Nil
  then show ?case by auto
next
  case (Cons h hs)
  obtain r w' where r: "db_Exec_insert_hardness p k h w = (r, w')"
    by (cases "db_Exec_insert_hardness p k h w")
  with Cons.prems(1) obtain x where x: "r = Inr x" by (cases r) auto
  from db_op_success [OF r [unfolded x db_Exec_insert_hardness_def] Cons.prems(2)] Cons.prems(3)
  have w': "files w' = (files w)(p \<mapsto> ins_hardness k h d)" by auto
  have p1: "files w' p = Some (ins_hardness k h d)" using w' by simp
  have p2: "schema (ins_hardness k h d)" using Cons.prems(3) by (simp add: ins_hardness_def)
  have "Sync_hardnesses p k hs w' = (Inr u, w1)" using Cons.prems(1) r x by simp
  from Cons.IH [OF this p1 p2]
  show ?case by (simp only: w' fun_upd_upd foldl_Cons)
qed

lemma Sync_cards_success:
  "Sync_cards p cs w = (Inr u, w1) \<Longrightarrow> files w p = Some d \<Longrightarrow> schema d \<Longrightarrow>
   files w1 = (files w)(p \<mapsto> store_cards cs d)"
proof (induction cs arbitrary: w d)
  case Nil
  then show ?case by auto
next
  case (Cons c cs)
  let ?r = "(Prompt c, Answer c, Reps c, Unix (NextRep c))"
  obtain r1 wa where r1: "db_Exec_insert_card p ?r w = (r1, wa)"
    by (cases "db_Exec_insert_card p ?r w")
  with Cons.prems(1) obtain k where k: "r1 = Inr k" by (cases r1) (auto simp: Let_def)
  from db_op_success [OF r1 [unfolded k db_Exec_insert_card_def] Cons.prems(2)] Cons.prems(3)
  obtain d1 where d1: "ins_card ?r d = (k, d1)" "files wa = (files w)(p \<mapsto> d1)" by auto
  have s1: "schema d1" using d1(1) Cons.prems(3) by (auto simp: ins_card_def Let_def)
  obtain r2 wb where r2: "Sync_efs p k (EFs c) wa = (r2, wb)" by (cases "Sync_efs p k (EFs c) wa")
  with Cons.prems(1) r1 k obtain u2 where u2: "r2 = Inr u2" by (cases r2) (auto simp: Let_def)
  let ?d2 = "foldl (\<lambda>d e. ins_ef k e d) d1 (EFs c)"
  have fa: "files wa p = Some d1" using d1(2) by simp
  from Sync_efs_success [OF r2 [unfolded u2] fa s1]
  have wb: "files wb = (files w)(p \<mapsto> ?d2)" by (simp only: d1(2) fun_upd_upd)
  have s2: "schema ?d2" using foldl_ins_ef [of k d1 "EFs c"] s1 by simp
  obtain r3 wc where r3: "Sync_hardnesses p k (Hardnesses c) wb = (r3, wc)"
    by (cases "Sync_hardnesses p k (Hardnesses c) wb")
  with Cons.prems(1) r1 k r2 u2 obtain u3 where u3: "r3 = Inr u3"
    by (cases r3) (auto simp: Let_def)
  let ?d3 = "foldl (\<lambda>d h. ins_hardness k h d) ?d2 (Hardnesses c)"
  have fb: "files wb p = Some ?d2" using wb by simp
  from Sync_hardnesses_success [OF r3 [unfolded u3] fb s2]
  have wc: "files wc = (files w)(p \<mapsto> ?d3)" by (simp only: wb fun_upd_upd)
  have s3: "schema ?d3" using foldl_ins_hardness [of k ?d2 "Hardnesses c"] s2 by simp
  have "Sync_cards p cs wc = (Inr u, w1)"
    using Cons.prems(1) r1 k r2 u2 r3 u3 by (simp add: Let_def)
  have fc: "files wc p = Some ?d3" using wc by simp
  have st: "store_cards (c # cs) d = store_cards cs ?d3" using d1(1) by simp
  from Cons.IH [OF \<open>Sync_cards p cs wc = (Inr u, w1)\<close> fc s3]
  show ?case by (simp only: wc st fun_upd_upd)
qed

lemma Sync_success:
  assumes "Sync d w = ((None, d'), w')"
  shows "files w' (Path d) = Some (store_cards (Cards d)
            \<lparr>schema = True, cards_t = [], efs_t = [], hardnesses_t = []\<rparr>)
       \<and> d' = d\<lparr>DB := Some (Path d), Dirty := False\<rparr>"
proof -
  let ?p = "Path d"
  let ?np = "Path d @ ''.sync''"
  let ?fresh = "\<lparr>schema = True, cards_t = [], efs_t = [], hardnesses_t = []\<rparr>"
  obtain rw w1 where rw: "Sync_write d w = (rw, w1)" by (cases "Sync_write d w")
  with assms obtain u where u: "rw = Inr u" by (cases rw) (auto simp: Sync_def)
  obtain ro wo where ro: "sql_Open ?np w = (ro, wo)" by (cases "sql_Open ?np w")
  with rw u obtain h where h: "ro = Inr h" by (cases ro) (auto simp: Sync_write_def)
  have hp: "h = ?np" and wo: "files wo = files w"
    using ro h by (auto simp: sql_Open_def fault_def split: prod.splits bool.splits list.splits)
  obtain rc wc where rc: "db_Exec_create ?np wo = (rc, wc)" by (cases "db_Exec_create ?np wo")
  with rw u ro h hp obtain uc where uc: "rc = Inr uc" by (cases rc) (auto simp: Sync_write_def)
  have wc: "files wc = (files w)(?np \<mapsto> ?fresh)"
    using rc uc wo
    by (auto simp: db_Exec_create_def db_op_def fault_def Let_def
        split: list.splits bool.splits sum.splits prod.splits if_splits)
  have cards: "Sync_cards ?np (Cards d) wc = (Inr u, w1)"
    using rw u ro h hp rc uc by (simp add: Sync_write_def)
  have ff: "files wc ?np = Some ?fresh" using wc by simp
  have sf: "schema ?fresh" by simp
  from Sync_cards_success [OF cards ff sf]
  have w1: "files w1 = (files w)(?np \<mapsto> store_cards (Cards d) ?fresh)"
    by (simp only: wc fun_upd_upd)
  obtain rr w2 where rr: "os_Remove ?p w1 = (rr, w2)" by (cases "os_Remove ?p w1")
  with assms rw u obtain ur where ur: "rr = Inr ur" by (cases rr) (auto simp: Sync_def)
  have w2: "files w2 = (files w1)(?p := None)"
    using rr ur
    by (auto simp: os_Remove_def fault_def split: list.splits bool.splits prod.splits option.splits)
  obtain rn w3 where rn: "os_Rename ?np ?p w2 = (rn, w3)" by (cases "os_Rename ?np ?p w2")
  with assms rw u rr ur obtain un where un: "rn = Inr un" by (cases rn) (auto simp: Sync_def)
  have w3: "files w3 ?p = Some (store_cards (Cards d) ?fresh)"
    using rn un w2 w1
    by (auto simp: os_Rename_def fault_def split: list.splits bool.splits prod.splits option.splits)
  obtain r4 w4 where r4: "sql_Open ?p w3 = (r4, w4)" by (cases "sql_Open ?p w3")
  with assms rw u rr ur rn un obtain h4 where h4: "r4 = Inr h4" by (cases r4) (auto simp: Sync_def)
  have h4p: "h4 = ?p" and w4: "files w4 = files w3"
    using r4 h4 by (auto simp: sql_Open_def fault_def split: prod.splits bool.splits list.splits)
  have "w' = w4" and "d' = d\<lparr>DB := Some ?p, Dirty := False\<rparr>"
    using assms rw u rr ur rn un r4 h4 h4p by (auto simp: Sync_def)
  then show ?thesis using w4 w3 by simp
qed

lemma load_cards_quiet:
  "faults w = [] \<Longrightarrow> files w p = Some d \<Longrightarrow> schema d \<Longrightarrow>
   load_cards p now rows deck w = (Inr (foldl AddCard deck (map (row_card d) rows)), w)"
proof (induction rows arbitrary: deck)
  case Nil
  then show ?case by simp
next
  case (Cons row rows)
  obtain k pr an rp nx where row: "row = (k, pr, an, rp, nx)" by (cases row)
  have same: "w\<lparr>files := (files w)(p \<mapsto> d)\<rparr> = w"
    using Cons.prems(2) by (simp add: map_upd_triv)
  have q1: "db_Query_efs p k w = (Inr (sel_efs k d), w)"
    using Cons.prems same by (simp add: db_Query_efs_def db_op_def fault_def)
  have q2: "db_Query_hardnesses p k w = (Inr (sel_hardnesses k d), w)"
    using Cons.prems same by (simp add: db_Query_hardnesses_def db_op_def fault_def)
  have c: "(NewCard pr an now)\<lparr>Id := k, Reps := rp, NextRep := time_Unix nx,
        EFs := EFs (NewCard pr an now) @ sel_efs k d,
        Hardnesses := Hardnesses (NewCard pr an now) @ sel_hardnesses k d\<rparr> = row_card d row"
    by (simp add: row NewCard_def row_card_def)
  show ?case using row q1 q2 c Cons.IH [OF Cons.prems] by (simp add: Let_def)
qed

lemma OpenDeck_quiet:
  assumes "faults w = []" and "files w p = Some d" and "schema d"
  shows "OpenDeck p now w =
           (Inr ((foldl AddCard \<lparr>Path = p, DB = Some p, Cards = [], Dirty = False\<rparr>
                   (map (row_card d) (sel_cards d)))\<lparr>Dirty := False\<rparr>), w)"
proof -
  have same: "w\<lparr>files := (files w)(p \<mapsto> d)\<rparr> = w"
    using assms(2) by (simp add: map_upd_triv)
  have o: "sql_Open p w = (Inr p, w)" using assms(1) by (simp add: sql_Open_def fault_def)
  have q: "db_Query_cards p w = (Inr (sel_cards d), w)"
    using assms same by (simp add: db_Query_cards_def db_op_def fault_def)
  show ?thesis using o q load_cards_quiet [OF assms] by (simp add: OpenDeck_def)
qed

lemma foldl_AddCard_cards:
  "map (\<lambda>c. c\<lparr>Id := 0\<rparr>) (Cards (foldl AddCard deck cs))
     = map (\<lambda>c. c\<lparr>Id := 0\<rparr>) (Cards deck) @ map (\<lambda>c. c\<lparr>Id := 0\<rparr>) cs"
  by (induction cs arbitrary: deck) (simp_all add: AddCard_def Let_def)

lemma sorted_due_times:
  "sorted (map (\<lambda>r. NextRep (row_card d r)) (sel_cards d))"
proof -
  let ?f = "\<lambda>(rid :: int, prompt :: string, answer :: string, reps :: int, nextrep :: int). nextrep"
  have "sorted (map ?f (sort_key ?f (cards_t d)))" by (rule sorted_sort_key)
  then have "sorted_wrt (\<lambda>x y. ?f x \<le> ?f y) (sel_cards d)"
    by (simp add: sel_cards_def sorted_map)
  then have "sorted_wrt (\<lambda>x y. NextRep (row_card d x) \<le> NextRep (row_card d y)) (sel_cards d)"
    by (rule sorted_wrt_mono_rel [rotated])
       (auto simp: row_card_def time_Unix_def split: prod.splits)
  then show ?thesis by (simp add: sorted_map)
qed

text \<open>
  C2, in the form that holds. When \<open>Sync\<close> succeeds, \<open>OpenDeck\<close> on the same path (with
  no further storage failure) succeeds and returns the cards of the synced deck with their
  prompts, answers, repetition counts, due times cut to the second and full easiness and
  hardness histories in their original order. The cards come back in ascending order of due
  time, and their ids are renumbered 0, 1, 2, ... in that order: ids are not kept.
\<close>

theorem Sync_then_OpenDeck:
  assumes "Sync d w = ((None, d'), w')" and "faults w' = []"
  shows "\<exists>d'' w''. OpenDeck (Path d) now w' = (Inr d'', w'')
           \<and> mset (map (\<lambda>c. c\<lparr>Id := 0\<rparr>) (Cards d'')) = mset (map saved (Cards d))
           \<and> map Id (Cards d'') = map int [0..<length (Cards d)]
           \<and> sorted (map NextRep (Cards d''))"
proof -
  let ?fresh = "\<lparr>schema = True, cards_t = [], efs_t = [], hardnesses_t = []\<rparr>"
  let ?db = "store_cards (Cards d) ?fresh"
  let ?loaded = "map (row_card ?db) (sel_cards ?db)"
  let ?D = "(foldl AddCard \<lparr>Path = Path d, DB = Some (Path d), Cards = [], Dirty = False\<rparr>
              ?loaded)\<lparr>Dirty := False\<rparr>"
  have wf: "db_wf ?fresh" by (simp add: db_wf_def)
  from store_cards_view [OF wf, of "Cards d"]
  have sch: "schema ?db"
    and view: "map (\<lambda>r. (row_card ?db r)\<lparr>Id := 0\<rparr>) (cards_t ?db) = map saved (Cards d)"
    by simp_all
  from Sync_success [OF assms(1)] have fl: "files w' (Path d) = Some ?db" by simp
  have op: "OpenDeck (Path d) now w' = (Inr ?D, w')"
    by (rule OpenDeck_quiet [OF assms(2) fl sch])
  have strip: "map (\<lambda>c. c\<lparr>Id := 0\<rparr>) (Cards ?D) = map (\<lambda>r. (row_card ?db r)\<lparr>Id := 0\<rparr>) (sel_cards ?db)"
    using foldl_AddCard_cards [of "\<lparr>Path = Path d, DB = Some (Path d), Cards = [], Dirty = False\<rparr>" ?loaded]
    by (simp add: comp_def)
  have "mset (map (\<lambda>r. (row_card ?db r)\<lparr>Id := 0\<rparr>) (sel_cards ?db))
      = mset (map (\<lambda>r. (row_card ?db r)\<lparr>Id := 0\<rparr>) (cards_t ?db))"
    by (simp add: sel_cards_def)
  then have m: "mset (map (\<lambda>c. c\<lparr>Id := 0\<rparr>) (Cards ?D)) = mset (map saved (Cards d))"
    by (simp only: strip view)
  have "length (Cards ?D) = length (map (\<lambda>c. c\<lparr>Id := 0\<rparr>) (Cards ?D))" by simp
  also have "\<dots> = length (sel_cards ?db)" by (simp only: strip length_map)
  also have "\<dots> = length (cards_t ?db)" by (simp add: sel_cards_def)
  also have "\<dots> = length (map (\<lambda>r. (row_card ?db r)\<lparr>Id := 0\<rparr>) (cards_t ?db))" by simp
  also have "\<dots> = length (Cards d)" by (simp only: view length_map)
  finally have len: "length (Cards ?D) = length (Cards d)" .
  have ids: "map Id (Cards ?D) = map int [0..<length (Cards d)]"
    using OpenDeck_ids_from_0 [OF op] len by simp
  have "map NextRep (Cards ?D) = map NextRep (map (\<lambda>c. c\<lparr>Id := 0\<rparr>) (Cards ?D))"
    by (simp add: comp_def)
  also have "\<dots> = map (\<lambda>r. NextRep (row_card ?db r)) (sel_cards ?db)"
    by (simp only: strip) (simp add: comp_def)
  finally have due: "sorted (map NextRep (Cards ?D))"
    using sorted_due_times [of ?db] by simp
  show ?thesis
    by (rule exI [of _ ?D], rule exI [of _ w']) (use op m ids due in blast)
qed

theorem Sync_then_OpenDeck_witness:
  "fst (fst (Sync \<lparr>Path = ''deck.db'', DB = Some ''deck.db'',
        Cards = [\<lparr>Id = 0, Prompt = ''pa'', Answer = ''aa'', Reps = 3, NextRep = 834624000000100,
                  EFs = [1.75, 1.75, 1.61], Hardnesses = [1, 2, 3]\<rparr>,
                 \<lparr>Id = 1, Prompt = ''pb'', Answer = ''ab'', Reps = 0, NextRep = 3000000000,
                  EFs = [], Hardnesses = []\<rparr>], Dirty = True\<rparr>
      \<lparr>files = (\<lambda>p. None)(''deck.db'' \<mapsto>
         \<lparr>schema = True, cards_t = [], efs_t = [], hardnesses_t = []\<rparr>), faults = []\<rparr>)) = None
   \<and> (\<exists>d'' w''. OpenDeck ''deck.db'' 0 (snd (Sync \<lparr>Path = ''deck.db'', DB = Some ''deck.db'',
        Cards = [\<lparr>Id = 0, Prompt = ''pa'', Answer = ''aa'', Reps = 3, NextRep = 834624000000100,
                  EFs = [1.75, 1.75, 1.61], Hardnesses = [1, 2, 3]\<rparr>,
                 \<lparr>Id = 1, Prompt = ''pb'', Answer = ''ab'', Reps = 0, NextRep = 3000000000,
                  EFs = [], Hardnesses = []\<rparr>], Dirty = True\<rparr>
      \<lparr>files = (\<lambda>p. None)(''deck.db'' \<mapsto>
         \<lparr>schema = True, cards_t = [], efs_t = [], hardnesses_t = []\<rparr>), faults = []\<rparr>))
        = (Inr d'', w'')
      \<and> mset (map (\<lambda>c. c\<lparr>Id := 0\<rparr>) (Cards d''))
          = mset [\<lparr>Id = 0, Prompt = ''pa'', Answer = ''aa'', Reps = 3, NextRep = 834624000000000,
                  EFs = [1.75, 1.75, 1.61], Hardnesses = [1, 2, 3]\<rparr>,
                 \<lparr>Id = 0, Prompt = ''pb'', Answer = ''ab'', Reps = 0, NextRep = 3000000000,
                  EFs = [], Hardnesses = []\<rparr>]
      \<and> map Id (Cards d'') = [0, 1]
      \<and> sorted (map NextRep (Cards d'')))"
proof -
  let ?d = "\<lparr>Path = ''deck.db'', DB = Some ''deck.db'',
        Cards = [\<lparr>Id = 0, Prompt = ''pa'', Answer = ''aa'', Reps = 3, NextRep = 834624000000100,
                  EFs = [1.75, 1.75, 1.61], Hardnesses = [1, 2, 3 :: go_int]\<rparr>,
                 \<lparr>Id = 1, Prompt = ''pb'', Answer = ''ab'', Reps = 0, NextRep = 3000000000,
                  EFs = [], Hardnesses = []\<rparr>], Dirty = True\<rparr>"
  let ?w = "\<lparr>files = (\<lambda>p. None)(''deck.db'' \<mapsto>
         \<lparr>schema = True, cards_t = [], efs_t = [], hardnesses_t = []\<rparr>), faults = []\<rparr>"
  have ok: "fst (fst (Sync ?d ?w)) = None" by (simp add: storage_defs)
  have fs: "faults (snd (Sync ?d ?w)) = []" by (simp add: storage_defs)
  obtain d' where s: "Sync ?d ?w = ((None, d'), snd (Sync ?d ?w))"
    using ok by (cases "Sync ?d ?w") auto
  from Sync_then_OpenDeck [OF s fs, of 0]
  obtain d'' w'' where o: "OpenDeck (Path ?d) 0 (snd (Sync ?d ?w)) = (Inr d'', w'')"
    "mset (map (\<lambda>c. c\<lparr>Id := 0\<rparr>) (Cards d'')) = mset (map saved (Cards ?d))"
    "map Id (Cards d'') = map int [0..<length (Cards ?d)]"
    "sorted (map NextRep (Cards d''))" by blast
  have r: "OpenDeck ''deck.db'' 0 (snd (Sync ?d ?w)) = (Inr d'', w'')
      \<and> mset (map (\<lambda>c. c\<lparr>Id := 0\<rparr>) (Cards d''))
          = mset [\<lparr>Id = 0, Prompt = ''pa'', Answer = ''aa'', Reps = 3, NextRep = 834624000000000,
                  EFs = [1.75, 1.75, 1.61], Hardnesses = [1, 2, 3]\<rparr>,
                 \<lparr>Id = 0, Prompt = ''pb'', Answer = ''ab'', Reps = 0, NextRep = 3000000000,
                  EFs = [], Hardnesses = []\<rparr>]
      \<and> map Id (Cards d'') = [0, 1]
      \<and> sorted (map NextRep (Cards d''))"
    using o by (simp add: saved_def time_Unix_def Unix_def upt_rec)
  show ?thesis
    by (rule conjI [OF ok], rule exI [of _ d''], rule exI [of _ w''], rule r)
qed

text \<open>
  The round trip does not keep ids. A store with two cards is opened and the card with id 0 is
  deleted, which leaves one card with id 1; after \<open>Sync\<close> and \<open>OpenDeck\<close> that card has
  id 0.
\<close>

theorem roundtrip_renumbers_ids:
  "fst (OpenDeck ''deck.db'' 0
      \<lparr>files = (\<lambda>p. None)(''deck.db'' \<mapsto>
         \<lparr>schema = True, cards_t = [(1, ''p0'', ''a0'', 0, 10), (2, ''p1'', ''a1'', 0, 20)],
          efs_t = [], hardnesses_t = []\<rparr>), faults = []\<rparr>)
     = Inr \<lparr>Path = ''deck.db'', DB = Some ''deck.db'',
            Cards = [\<lparr>Id = 0, Prompt = ''p0'', Answer = ''a0'', Reps = 0, NextRep = 10000000000,
                      EFs = [], Hardnesses = []\<rparr>,
                     \<lparr>Id = 1, Prompt = ''p1'', Answer = ''a1'', Reps = 0, NextRep = 20000000000,
                      EFs = [], Hardnesses = []\<rparr>], Dirty = False\<rparr>
   \<and> DeleteCard \<lparr>Path = ''deck.db'', DB = Some ''deck.db'',
            Cards = [\<lparr>Id = 0, Prompt = ''p0'', Answer = ''a0'', Reps = 0, NextRep = 10000000000,
                      EFs = [], Hardnesses = []\<rparr>,
                     \<lparr>Id = 1, Prompt = ''p1'', Answer = ''a1'', Reps = 0, NextRep = 20000000000,
                      EFs = [], Hardnesses = []\<rparr>], Dirty = False\<rparr> 0
     = \<lparr>Path = ''deck.db'', DB = Some ''deck.db'',
            Cards = [\<lparr>Id = 1, Prompt = ''p1'', Answer = ''a1'', Reps = 0, NextRep = 20000000000,
                      EFs = [], Hardnesses = []\<rparr>], Dirty = True\<rparr>
   \<and> fst (fst (Sync \<lparr>Path = ''deck.db'', DB = Some ''deck.db'',
            Cards = [\<lparr>Id = 1, Prompt = ''p1'', Answer = ''a1'', Reps = 0, NextRep = 20000000000,
                      EFs = [], Hardnesses = []\<rparr>], Dirty = True\<rparr>
      \<lparr>files = (\<lambda>p. None)(''deck.db'' \<mapsto>
         \<lparr>schema = True, cards_t = [(1, ''p0'', ''a0'', 0, 10), (2, ''p1'', ''a1'', 0, 20)],
          efs_t = [], hardnesses_t = []\<rparr>), faults = []\<rparr>)) = None
   \<and> fst (OpenDeck ''deck.db'' 0 (snd (Sync \<lparr>Path = ''deck.db'', DB = Some ''deck.db'',
            Cards = [\<lparr>Id = 1, Prompt = ''p1'', Answer = ''a1'', Reps = 0, NextRep = 20000000000,
                      EFs = [], Hardnesses = []\<rparr>], Dirty = True\<rparr>
      \<lparr>files = (\<lambda>p. None)(''deck.db'' \<mapsto>
         \<lparr>schema = True, cards_t = [(1, ''p0'', ''a0'', 0, 10), (2, ''p1'', ''a1'', 0, 20)],
          efs_t = [], hardnesses_t = []\<rparr>), faults = []\<rparr>)))
     = Inr \<lparr>Path = ''deck.db'', DB = Some ''deck.db'',
            Cards = [\<lparr>Id = 0, Prompt = ''p1'', Answer = ''a1'', Reps = 0, NextRep = 20000000000,
                      EFs = [], Hardnesses = []\<rparr>], Dirty = False\<rparr>"
  by (simp add: storage_defs DeleteCard_def)

section \<open>The ids of reachable decks\<close>

lemma CalcNextRep_Id: "CalcNextRep now h c = Some c' \<Longrightarrow> Id c' = Id c"
  by (auto simp: CalcNextRep_def Let_def split: if_splits option.splits)

lemma CalcNextRep_v2_Id: "CalcNextRep_v2 now h c = Some c' \<Longrightarrow> Id c' = Id c"
  by (auto simp: CalcNextRep_v2_def Let_def split: if_splits option.splits)

lemma Sync_Cards: "Sync d w = ((err, d'), w') \<Longrightarrow> Cards d' = Cards d"
  by (auto simp: Sync_def split: prod.splits sum.splits)

lemma update_same_id:
  "i < length cs \<Longrightarrow> Id c = Id (cs ! i) \<Longrightarrow> map Id (cs[i := c]) = map Id cs"
  by (simp add: map_update list_update_same_conv)

lemma reachable_ids_ascending: "reachable d \<Longrightarrow> ids_ascending d"
proof (induction rule: reachable.induct)
  case (opened path now w d w')
  then show ?case by (rule OpenDeck_ids_ascending)
next
  case (added d c)
  then show ?case by (simp add: AddCard_ids_ascending)
next
  case (deleted d cid)
  then show ?case by (simp add: DeleteCard_ids_ascending)
next
  case (reviewed d i now hardness c)
  then show ?case by (simp add: ids_ascending_def update_same_id CalcNextRep_Id)
next
  case (reviewed_v2 d i now hardness c)
  then show ?case by (simp add: ids_ascending_def update_same_id CalcNextRep_v2_Id)
next
  case (edited d i prompt answer)
  then show ?case by (simp add: ids_ascending_def update_same_id)
next
  case (synced d w err d' w')
  then show ?case by (simp add: ids_ascending_def Sync_Cards)
qed

text \<open>
  C7. For every deck that the program can hold, \<open>AddCard\<close> gives the new card id 0 when the
  deck is empty and otherwise the maximum id of the deck plus one, appends the card at the end
  and marks the deck dirty. \<open>AddCard\<close> takes the id of the last card (\<open>AddCard_max_id\<close>);
  the ids of a reachable deck ascend along its order, so the last id is the maximum.
\<close>

theorem AddCard_assigns_next_id:
  assumes "reachable d"
  shows "AddCard d c =
           d\<lparr>Cards := Cards d @ [c\<lparr>Id := (if Cards d = [] then 0
                                           else Max (Id ` set (Cards d)) + 1)\<rparr>],
             Dirty := True\<rparr>"
  using assms by (intro AddCard_max_id reachable_ids_ascending)

theorem AddCard_assigns_next_id_witness:
  "reachable \<lparr>Path = ''deck.db'', DB = Some ''deck.db'',
       Cards = [\<lparr>Id = 1, Prompt = ''p1'', Answer = ''a1'', Reps = 0, NextRep = 20000000000,
                 EFs = [], Hardnesses = []\<rparr>,
                \<lparr>Id = 2, Prompt = ''p2'', Answer = ''a2'', Reps = 0, NextRep = 30000000000,
                 EFs = [], Hardnesses = []\<rparr>], Dirty = True\<rparr>
   \<and> AddCard \<lparr>Path = ''deck.db'', DB = Some ''deck.db'',
       Cards = [\<lparr>Id = 1, Prompt = ''p1'', Answer = ''a1'', Reps = 0, NextRep = 20000000000,
                 EFs = [], Hardnesses = []\<rparr>,
                \<lparr>Id = 2, Prompt = ''p2'', Answer = ''a2'', Reps = 0, NextRep = 30000000000,
                 EFs = [], Hardnesses = []\<rparr>], Dirty = True\<rparr> (NewCard ''p'' ''a'' 9)
     = \<lparr>Path = ''deck.db'', DB = Some ''deck.db'',
       Cards = [\<lparr>Id = 1, Prompt = ''p1'', Answer = ''a1'', Reps = 0, NextRep = 20000000000,
                 EFs = [], Hardnesses = []\<rparr>,
                \<lparr>Id = 2, Prompt = ''p2'', Answer = ''a2'', Reps = 0, NextRep = 30000000000,
                 EFs = [], Hardnesses = []\<rparr>,
                \<lparr>Id = 3, Prompt = ''p'', Answer = ''a'', Reps = 0, NextRep = 9,
                 EFs = [], Hardnesses = []\<rparr>], Dirty = True\<rparr>"
proof -
  let ?w = "\<lparr>files = (\<lambda>p. None)(''deck.db'' \<mapsto>
         \<lparr>schema = True, cards_t = [(1, ''p0'', ''a0'', 0, 10), (2, ''p1'', ''a1'', 0, 20),
                                   (3, ''p2'', ''a2'', 0, 30)],
          efs_t = [], hardnesses_t = []\<rparr>), faults = []\<rparr>"
  let ?opened = "\<lparr>Path = ''deck.db'', DB = Some ''deck.db'',
       Cards = [\<lparr>Id = 0, Prompt = ''p0'', Answer = ''a0'', Reps = 0, NextRep = 10000000000,
                 EFs = [], Hardnesses = []\<rparr>,
                \<lparr>Id = 1, Prompt = ''p1'', Answer = ''a1'', Reps = 0, NextRep = 20000000000,
                 EFs = [], Hardnesses = []\<rparr>,
                \<lparr>Id = 2, Prompt = ''p2'', Answer = ''a2'', Reps = 0, NextRep = 30000000000,
                 EFs = [], Hardnesses = []\<rparr>], Dirty = False\<rparr>"
  let ?d = "\<lparr>Path = ''deck.db'', DB = Some ''deck.db'',
       Cards = [\<lparr>Id = 1, Prompt = ''p1'', Answer = ''a1'', Reps = 0, NextRep = 20000000000,
                 EFs = [], Hardnesses = []\<rparr>,
                \<lparr>Id = 2, Prompt = ''p2'', Answer = ''a2'', Reps = 0, NextRep = 30000000000,
                 EFs = [], Hardnesses = [] :: go_int list\<rparr>], Dirty = True\<rparr>"
  have o: "OpenDeck ''deck.db'' 0 ?w = (Inr ?opened, ?w)" by (simp add: storage_defs)
  have del: "DeleteCard ?opened 0 = ?d" by (simp add: DeleteCard_def)
  have r: "reachable ?d" using reachable.deleted [OF reachable.opened [OF o], of 0] del by simp
  show ?thesis using r AddCard_assigns_next_id [OF r, of "NewCard ''p'' ''a'' 9"]
    by (simp add: NewCard_def)
qed

end
